theory Spec2Isabelle
  imports Complex_Main "HOL-Library.Sublist" "HOL-Library.Char_ord"
    "HOL-Library.List_Lexorder" "HOL-Library.Product_Lexorder"
begin

section \<open>Python values used by the KEGG scripts\<close>

text \<open>
  A Python \<open>str\<close> is modelled as a \<^typ>\<open>string\<close>; a \<^typ>\<open>char\<close> stands for a code point
  below 256 (the KEGG REST responses are ASCII). Strings and lists of strings are compared
  as Python compares them: by code point, lexicographically, a proper prefix first.
  An exception is a value of \<open>error\<close>; a function that can raise returns \<open>error + 'a\<close>.
\<close>

datatype error = AttributeError | TypeError | IndexError

text \<open>\<open>s.split(sep)\<close> for a one-character separator.\<close>

fun str_split :: "char \<Rightarrow> string \<Rightarrow> string list" where
  "str_split sep [] = [[]]"
| "str_split sep (c # cs) =
     (if c = sep then [] # str_split sep cs
      else (case str_split sep cs of [] \<Rightarrow> [[c]] | w # ws \<Rightarrow> (c # w) # ws))"

text \<open>\<open>sep.join(parts)\<close>.\<close>

fun str_join :: "string \<Rightarrow> string list \<Rightarrow> string" where
  "str_join sep [] = []"
| "str_join sep [w] = w"
| "str_join sep (w # v # ws) = w @ sep @ str_join sep (v # ws)"

text \<open>\<open>needle in text\<close> on strings.\<close>

fun str_contains :: "string \<Rightarrow> string \<Rightarrow> bool" where
  "str_contains needle [] = (needle = [])"
| "str_contains needle (c # cs) = (prefix needle (c # cs) \<or> str_contains needle cs)"

definition upper :: string where
  "upper = ''ABCDEFGHIJKLMNOPQRSTUVWXYZ''"

definition lowercase :: string where
  "lowercase = ''abcdefghijklmnopqrstuvwxyz''"

text \<open>\<open>s.lower()\<close>, on the ASCII letters.\<close>

definition str_lower :: "string \<Rightarrow> string" where
  "str_lower s = map (\<lambda>c. case map_of (zip upper lowercase) c of None \<Rightarrow> c | Some l \<Rightarrow> l) s"

section \<open>Regular expressions with Python's backtracking order\<close>

text \<open>
  The patterns of the scripts use character classes, literals, sequence, alternation, the
  greedy \<open>+\<close>, capturing groups, a literal look-behind, a look-ahead and \<open>$\<close>. A pattern is
  matched at a position by enumerating, in the order in which the backtracking matcher of
  \<open>re\<close> tries them, all the ways it can match there: the head of that list is the match
  Python reports. A position is the text before it (reversed), the text after it, and the
  groups captured so far.
\<close>

datatype cset = Chars string | NotChars string | AnyButNewline

fun in_cset :: "cset \<Rightarrow> char \<Rightarrow> bool" where
  "in_cset (Chars cs) c = (c \<in> set cs)"
| "in_cset (NotChars cs) c = (c \<notin> set cs)"
| "in_cset AnyButNewline c = (c \<noteq> CHR ''\<newline>'')"

datatype re =
    Cls cset
  | Lit string
  | Seq re re
  | Alt re re
  | Plus re
  | Group nat re
  | LookBehind string
  | LookAhead re
  | Eol

type_synonym captures = "(nat \<times> string) list"
type_synonym mstate = "string \<times> string \<times> captures"

text \<open>
  Greedy repetition of a step \<open>f\<close>, one or more times: after each iteration the longer
  matches come before the match that stops there. An iteration that consumed nothing is not
  repeated (none of the repeated patterns below can match the empty string).
\<close>

fun rep :: "(mstate \<Rightarrow> mstate list) \<Rightarrow> mstate \<Rightarrow> mstate list" where
  "rep f s = concat (map (\<lambda>s'.
       (if length (fst (snd s')) < length (fst (snd s)) then rep f s' else []) @ [s']) (f s))"

declare rep.simps [simp del]

text \<open>Closing group \<open>k\<close>, entered at \<open>s\<close> and left at \<open>s'\<close>: the last capture is the one kept.\<close>

definition set_group :: "nat \<Rightarrow> mstate \<Rightarrow> mstate \<Rightarrow> mstate" where
  "set_group k s s' = (case (s, s') of ((b, r, g), (b', r', g')) \<Rightarrow>
     (b', r', (k, take (length r - length r') r) # filter (\<lambda>e. fst e \<noteq> k) g'))"

primrec m :: "re \<Rightarrow> mstate \<Rightarrow> mstate list" where
  "m (Cls cs) s = (case s of (b, [], g) \<Rightarrow> []
       | (b, c # r, g) \<Rightarrow> if in_cset cs c then [(c # b, r, g)] else [])"
| "m (Lit w) s = (case s of (b, r, g) \<Rightarrow>
       if prefix w r then [(rev w @ b, drop (length w) r, g)] else [])"
| "m (Seq p q) s = concat (map (m q) (m p s))"
| "m (Alt p q) s = m p s @ m q s"
| "m (Plus p) s = rep (m p) s"
| "m (Group k p) s = map (set_group k s) (m p s)"
| "m (LookBehind w) s = (if prefix (rev w) (fst s) then [s] else [])"
| "m (LookAhead p) s = (if m p s = [] then [] else [s])"
| "m Eol s = (if fst (snd s) = [] \<or> fst (snd s) = ''\<newline>'' then [s] else [])"

text \<open>A match object: the matched text (\<open>group(0)\<close>) and the captured groups.\<close>

type_synonym match = "string \<times> captures"

definition group0 :: "match \<Rightarrow> string" where
  "group0 mt = fst mt"

text \<open>Group \<open>k\<close> as \<open>findall\<close> reports it: the empty string when the group took no part.\<close>

definition group_str :: "captures \<Rightarrow> nat \<Rightarrow> string" where
  "group_str g k = (case map_of g k of None \<Rightarrow> [] | Some v \<Rightarrow> v)"

text \<open>\<open>mt.groups()\<close> of a pattern with two groups.\<close>

definition groups2 :: "match \<Rightarrow> string \<times> string" where
  "groups2 mt = (group_str (snd mt) 1, group_str (snd mt) 2)"

text \<open>\<open>pattern.search(text)\<close>: the first position, from the left, where the pattern matches.\<close>

fun search_from :: "re \<Rightarrow> string \<Rightarrow> string \<Rightarrow> match option" where
  "search_from p b [] = (case m p (b, [], []) of [] \<Rightarrow> None | (b', r', g) # _ \<Rightarrow> Some ([], g))"
| "search_from p b (c # r) = (case m p (b, c # r, []) of
       [] \<Rightarrow> search_from p (c # b) r
     | (b', r', g) # _ \<Rightarrow> Some (take (length (c # r) - length r') (c # r), g))"

definition re_search :: "re \<Rightarrow> string \<Rightarrow> match option" where
  "re_search p text = search_from p [] text"

text \<open>
  \<open>pattern.findall(text)\<close> for a pattern with one group: the group of every match, the
  matches found from left to right without overlap.
\<close>

fun findall_from :: "re \<Rightarrow> string \<Rightarrow> string \<Rightarrow> string list" where
  "findall_from p b [] = (case m p (b, [], []) of [] \<Rightarrow> [] | (b', r', g) # _ \<Rightarrow> [group_str g 1])"
| "findall_from p b (c # r) = (case m p (b, c # r, []) of
       [] \<Rightarrow> findall_from p (c # b) r
     | (b', r', g) # _ \<Rightarrow> group_str g 1 #
         (if length r' < length (c # r) then findall_from p b' r' else findall_from p (c # b) r))"

definition re_findall :: "re \<Rightarrow> string \<Rightarrow> string list" where
  "re_findall p text = findall_from p [] text"

text \<open>\<open>pattern.sub(repl, text)\<close> for a replacement without group references.\<close>

fun sub_from :: "re \<Rightarrow> string \<Rightarrow> string \<Rightarrow> string \<Rightarrow> string" where
  "sub_from p repl b [] = (case m p (b, [], []) of [] \<Rightarrow> [] | _ # _ \<Rightarrow> repl)"
| "sub_from p repl b (c # r) = (case m p (b, c # r, []) of
       [] \<Rightarrow> c # sub_from p repl (c # b) r
     | (b', r', g) # _ \<Rightarrow> repl @
         (if length r' < length (c # r) then sub_from p repl b' r'
          else c # sub_from p repl (c # b) r))"

definition re_sub :: "re \<Rightarrow> string \<Rightarrow> string \<Rightarrow> string" where
  "re_sub p repl text = sub_from p repl [] text"

section \<open>helpers/utils.py: the patterns\<close>

text \<open>\<^verbatim>\<open>REGEX_FASTA = re.compile(r">(.+)\n([A-Z\n]+)")\<close>\<close>

definition REGEX_FASTA :: re where
  "REGEX_FASTA = Seq (Lit ''>'') (Seq (Group 1 (Plus (Cls AnyButNewline)))
     (Seq (Lit ''\<newline>'') (Group 2 (Plus (Cls (Chars (upper @ ''\<newline>'')))))))"

text \<open>\<^verbatim>\<open>REGEX_EC_NUMBERS = re.compile(r"(?<=\[EC:)([\d .-]+)(?=])")\<close>\<close>

definition ec_chars :: string where
  "ec_chars = ''0123456789 .-''"

definition REGEX_EC_NUMBERS :: re where
  "REGEX_EC_NUMBERS = Seq (LookBehind ''[EC:'')
     (Seq (Group 1 (Plus (Cls (Chars ec_chars)))) (LookAhead (Lit '']'')))"

text \<open>\<^verbatim>\<open>re.compile(r"(?<=" + section + r")(.|\n )+(?=\n[A-Z]+)")\<close>, for a section name
  without pattern metacharacters.\<close>

definition get_kegg_section_regex :: "string \<Rightarrow> re" where
  "get_kegg_section_regex section = Seq (LookBehind section)
     (Seq (Plus (Group 1 (Alt (Cls AnyButNewline) (Lit ''\<newline> ''))))
          (LookAhead (Seq (Lit ''\<newline>'') (Plus (Cls (Chars upper))))))"

section \<open>get\_sequences.py: the gene section\<close>

definition REGEX_GENES_SECTION :: re where
  "REGEX_GENES_SECTION = get_kegg_section_regex ''GENES''"

text \<open>\<^verbatim>\<open>regex_gene_row = re.compile(r"([A-Z]+): (.+)")\<close>\<close>

definition regex_gene_row :: re where
  "regex_gene_row = Seq (Group 1 (Plus (Cls (Chars upper))))
     (Seq (Lit '': '') (Group 2 (Plus (Cls AnyButNewline))))"

text \<open>\<^verbatim>\<open>regex_parentheses = re.compile(r"\(.+\)")\<close>\<close>

definition regex_parentheses :: re where
  "regex_parentheses = Seq (Lit ''('') (Seq (Plus (Cls AnyButNewline)) (Lit '')''))"

text \<open>
  The loop of \<open>parse_genes\<close> over the lines of the section, \<open>genes\<close> being the rows gathered
  so far. \<open>regex_gene_row.search(line).groups()\<close> raises \<open>AttributeError\<close> when the search
  finds nothing.
\<close>

fun parse_gene_lines :: "string \<Rightarrow> string list \<Rightarrow> string list list \<Rightarrow> error + string list list" where
  "parse_gene_lines ec_number [] genes = Inr genes"
| "parse_gene_lines ec_number (line # lines) genes =
     (case re_search regex_gene_row line of
        None \<Rightarrow> Inl AttributeError
      | Some mt \<Rightarrow>
          (case groups2 mt of (organism, gene_list) \<Rightarrow>
             parse_gene_lines ec_number lines
               (genes @ map (\<lambda>g. [ec_number, str_lower organism, g])
                  (str_split CHR '' '' (re_sub regex_parentheses [] gene_list)))))"

definition parse_genes :: "string \<Rightarrow> string \<Rightarrow> error + string list list" where
  "parse_genes ec_number text =
     (case re_search REGEX_GENES_SECTION text of
        None \<Rightarrow> Inr []
      | Some genes_section \<Rightarrow>
          parse_gene_lines ec_number (str_split CHR ''\<newline>'' (group0 genes_section)) [])"

section \<open>pathlib paths and the cache files\<close>

text \<open>
  A \<open>pathlib\<close> path on a POSIX system is its root (empty, \<open>/\<close> or \<open>//\<close>) and its parts.
  Parsing a string drops empty parts and the parts \<open>.\<close>; joining a segment that starts
  with \<open>/\<close> replaces the path. The file system is a map from the string form of a path to the
  text of the file there; \<open>mkdir(parents=True, exist_ok=True)\<close> is taken to succeed.
\<close>

datatype path = Path (path_root: string) (path_parts: "string list")

definition splitroot :: "string \<Rightarrow> string \<times> string" where
  "splitroot p = (if prefix ''///'' p then (''/'', drop 1 p)
     else if prefix ''//'' p then (''//'', drop 2 p)
     else if prefix ''/'' p then (''/'', drop 1 p)
     else ([], p))"

definition parse_path :: "string \<Rightarrow> path" where
  "parse_path p = (case splitroot p of (rt, rel) \<Rightarrow>
     Path rt (filter (\<lambda>x. x \<noteq> [] \<and> x \<noteq> ''.'') (str_split CHR ''/'' rel)))"

text \<open>\<open>p / seg\<close>\<close>

definition truediv :: "path \<Rightarrow> string \<Rightarrow> path" where
  "truediv p seg = (if prefix ''/'' seg then parse_path seg
     else Path (path_root p) (path_parts p @ path_parts (parse_path seg)))"

text \<open>\<open>p.joinpath(*segs)\<close>\<close>

definition joinpath :: "path \<Rightarrow> string list \<Rightarrow> path" where
  "joinpath p segs = foldl truediv p segs"

text \<open>\<open>str(p)\<close>\<close>

definition path_str :: "path \<Rightarrow> string" where
  "path_str p = (if path_root p = [] \<and> path_parts p = [] then ''.''
     else path_root p @ str_join ''/'' (path_parts p))"

section \<open>The server, the clock and the state of a run\<close>

text \<open>
  The environment of a run is what it cannot control: the response of the server to the
  \<open>n\<close>-th request of the run, and the \<open>n\<close>-th value drawn from \<open>random()\<close>, which lies in
  \<open>[0, 1)\<close>. Durations are real numbers (the rounding of floating point is not modelled).
  The state records the requests sent, the values drawn, the backoff sleeps in the order
  they were slept, the files of the cache and the lines printed. Operations are run one
  after the other, in the order of their work items. A computation that may not return has
  an \<open>option\<close> result, \<open>None\<close> when it does not return. The lines printed only when
  \<open>DEBUG\<close> is set are left out, the server always answers, and the state reached when an
  exception leaves \<open>main\<close> is not kept.
\<close>

record response =
  status_code :: nat
  resp_text :: string

record env =
  server :: "nat \<Rightarrow> string \<Rightarrow> response"
  rnd :: "nat \<Rightarrow> real"

record state =
  requests :: nat
  draws :: nat
  sleeps :: "real list"
  files :: "string \<rightharpoonup> string"
  printed :: "string list"

type_synonym 'a result = "(error + 'a \<times> state) option"

text \<open>Sequencing: an exception or a computation that does not return ends the run.\<close>

definition rbind :: "'a result \<Rightarrow> ('a \<Rightarrow> state \<Rightarrow> 'b result) \<Rightarrow> 'b result" where
  "rbind x f = (case x of None \<Rightarrow> None | Some (Inl e) \<Rightarrow> Some (Inl e) | Some (Inr (v, st)) \<Rightarrow> f v st)"

definition lift :: "error + 'a \<Rightarrow> state \<Rightarrow> 'a result" where
  "lift x st = (case x of Inl e \<Rightarrow> Some (Inl e) | Inr v \<Rightarrow> Some (Inr (v, st)))"

text \<open>\<open>await client.get(path)\<close>\<close>

definition client_get :: "env \<Rightarrow> string \<Rightarrow> state \<Rightarrow> response \<times> state" where
  "client_get env path st = (server env (requests st) path, st\<lparr>requests := Suc (requests st)\<rparr>)"

section \<open>helpers/utils.py: fetch\_with\_retry\<close>

text \<open>The \<open>while response.status_code == 403\<close> loop; it returns only on another status.\<close>

partial_function (option) retry_loop ::
  "env \<Rightarrow> string \<Rightarrow> real \<Rightarrow> response \<Rightarrow> state \<Rightarrow> (response \<times> state) option" where
  "retry_loop env path sleep_seconds response st =
     (if status_code response = 403
      then retry_loop env path (sleep_seconds * 2)
             (fst (client_get env path (st\<lparr>sleeps := sleeps st @ [sleep_seconds]\<rparr>)))
             (snd (client_get env path (st\<lparr>sleeps := sleeps st @ [sleep_seconds]\<rparr>)))
      else Some (response, st))"

definition fetch_with_retry :: "env \<Rightarrow> string \<Rightarrow> state \<Rightarrow> (response \<times> state) option" where
  "fetch_with_retry env path st =
     (case client_get env path st of (response, st1) \<Rightarrow>
        retry_loop env path (4 + rnd env (draws st1) * 2) response
          (st1\<lparr>draws := Suc (draws st1)\<rparr>))"

section \<open>get\_sequences.py\<close>

record sequence =
  organism :: string
  ident :: string

text \<open>\<^verbatim>\<open>re.search(r"///\s+$", response.text)\<close>\<close>

definition whitespace :: string where
  "whitespace = [CHR 0x09, CHR 0x0A, CHR 0x0B, CHR 0x0C, CHR 0x0D, CHR 0x1C, CHR 0x1D,
     CHR 0x1E, CHR 0x1F, CHR 0x20, CHR 0x85, CHR 0xA0]"

definition regex_terminator :: re where
  "regex_terminator = Seq (Lit ''///'') (Seq (Plus (Cls (Chars whitespace))) Eol)"

text \<open>The check of \<open>fetch_enzyme\<close> that the response is the expected one.\<close>

definition enzyme_response_ok :: "string \<Rightarrow> response \<Rightarrow> bool" where
  "enzyme_response_ok ec_number response =
     (status_code response = 200
      \<and> prefix ''ENTRY'' (resp_text response)
      \<and> re_search regex_terminator (resp_text response) \<noteq> None
      \<and> str_contains ec_number (resp_text response))"

text \<open>
  The \<open>for _ in range(3)\<close> loop of \<open>fetch_enzyme\<close> with \<open>k\<close> iterations left: the response it
  breaks on, or \<open>None\<close> when the loop runs out (the \<open>else\<close> branch).
\<close>

fun enzyme_attempts :: "env \<Rightarrow> string \<Rightarrow> nat \<Rightarrow> state \<Rightarrow> (response option \<times> state) option" where
  "enzyme_attempts env ec_number 0 st = Some (None, st)"
| "enzyme_attempts env ec_number (Suc k) st =
     (case fetch_with_retry env (''/get/ec:'' @ ec_number) st of
        None \<Rightarrow> None
      | Some (response, st') \<Rightarrow>
          if enzyme_response_ok ec_number response then Some (Some response, st')
          else enzyme_attempts env ec_number k st')"

text \<open>The file \<open>fetch_enzyme\<close> saves the raw response in.\<close>

definition enzyme_save_path :: "path \<Rightarrow> string \<Rightarrow> path" where
  "enzyme_save_path cache_path ec_number =
     (let ec_split = str_split CHR ''.'' ec_number;
          save_fullpath = joinpath cache_path (butlast ec_split)
      in truediv save_fullpath (ec_number @ ''.txt''))"

definition fetch_enzyme ::
  "env \<Rightarrow> path option \<Rightarrow> string \<Rightarrow> state \<Rightarrow> string list list option result" where
  "fetch_enzyme env cache_path ec_number st =
     (case enzyme_attempts env ec_number 3 st of
        None \<Rightarrow> None
      | Some (None, st1) \<Rightarrow>
          Some (Inr (None, st1\<lparr>printed := printed st1 @ [''Error fetching '' @ ec_number]\<rparr>))
      | Some (Some response, st1) \<Rightarrow>
          (let st2 = (case cache_path of
                        None \<Rightarrow> st1
                      | Some cp \<Rightarrow> st1\<lparr>files := (files st1)
                          (path_str (enzyme_save_path cp ec_number) \<mapsto> resp_text response)\<rparr>)
           in case parse_genes ec_number (resp_text response) of
                Inl e \<Rightarrow> Some (Inl e)
              | Inr genes \<Rightarrow> Some (Inr (Some genes, st2))))"

text \<open>
  The loop of \<open>fetch_sequence\<close>: \<open>REGEX_FASTA.search(response.text).groups()\<close> raises
  \<open>AttributeError\<close> when nothing is found, which the loop catches to try again.
\<close>

fun sequence_attempts ::
  "env \<Rightarrow> string \<Rightarrow> nat \<Rightarrow> state \<Rightarrow> ((response \<times> string \<times> string) option \<times> state) option" where
  "sequence_attempts env api_path 0 st = Some (None, st)"
| "sequence_attempts env api_path (Suc k) st =
     (case fetch_with_retry env api_path st of
        None \<Rightarrow> None
      | Some (response, st') \<Rightarrow>
          (case re_search REGEX_FASTA (resp_text response) of
             None \<Rightarrow> sequence_attempts env api_path k st'
           | Some mt \<Rightarrow>
               (case groups2 mt of (seq_id, seq) \<Rightarrow>
                  if seq_id \<noteq> [] \<and> seq \<noteq> [] then Some (Some (response, seq_id, seq), st')
                  else sequence_attempts env api_path k st')))"

text \<open>\<^verbatim>\<open>re.sub("[^A-Z]+", '', seq)\<close>\<close>

definition regex_not_upper :: re where
  "regex_not_upper = Plus (Cls (NotChars upper))"

definition sequence_file :: "path \<Rightarrow> sequence \<Rightarrow> path" where
  "sequence_file cache_path s = truediv (truediv cache_path (organism s)) (ident s @ ''.txt'')"

definition fetch_sequence ::
  "env \<Rightarrow> path option \<Rightarrow> sequence \<Rightarrow> state \<Rightarrow> (sequence \<times> string \<times> string) option result" where
  "fetch_sequence env cache_path s st =
     (case sequence_attempts env (''/get/'' @ organism s @ '':'' @ ident s @ ''/aaseq'') 3 st of
        None \<Rightarrow> None
      | Some (None, st1) \<Rightarrow>
          Some (Inr (None, st1\<lparr>printed := printed st1 @
             [''Could not get sequence '' @ organism s @ '':'' @ ident s]\<rparr>))
      | Some (Some (response, seq_id, seq), st1) \<Rightarrow>
          (let st2 = (case cache_path of
                        None \<Rightarrow> st1
                      | Some cp \<Rightarrow> st1\<lparr>files := (files st1)
                          (path_str (sequence_file cp s) \<mapsto> resp_text response)\<rparr>)
           in Some (Inr (Some (s, seq_id, re_sub regex_not_upper [] seq), st2))))"

text \<open>\<open>aiometer.run_all\<close> over cache queries, which only read: the first exception ends it.\<close>

fun run_all :: "(error + 'a) list \<Rightarrow> error + 'a list" where
  "run_all [] = Inr []"
| "run_all (q # qs) =
     (case q of
        Inl e \<Rightarrow> Inl e
      | Inr r \<Rightarrow> (case run_all qs of Inl e \<Rightarrow> Inl e | Inr rs \<Rightarrow> Inr (r # rs)))"

text \<open>\<open>fetch_cache\<close>: the cache misses, and the results of the cache hits.\<close>

definition get_sequences_fetch_cache ::
  "'a list \<Rightarrow> path \<Rightarrow> (path \<Rightarrow> 'a \<Rightarrow> state \<Rightarrow> error + 'b option) \<Rightarrow> state
     \<Rightarrow> error + ('a list \<times> 'b list)" where
  "get_sequences_fetch_cache elements cache_path get_function st =
     (case run_all (map (\<lambda>e. get_function cache_path e st) elements) of
        Inl e \<Rightarrow> Inl e
      | Inr cache_results \<Rightarrow>
          Inr (map fst (filter (\<lambda>er. snd er = None) (zip elements cache_results)),
               map the (filter (\<lambda>x. x \<noteq> None) cache_results)))"

definition enzyme_cache_file :: "path \<Rightarrow> string \<Rightarrow> path" where
  "enzyme_cache_file cache_path ec_number =
     (let ec_split = str_split CHR ''.'' ec_number
      in truediv (joinpath cache_path (butlast ec_split)) (ec_number @ ''.txt''))"

definition get_enzyme_from_cache ::
  "path \<Rightarrow> string \<Rightarrow> state \<Rightarrow> error + string list list option" where
  "get_enzyme_from_cache cache_path ec_number st =
     (case files st (path_str (enzyme_cache_file cache_path ec_number)) of
        None \<Rightarrow> Inr None
      | Some text \<Rightarrow>
          (case parse_genes ec_number text of Inl e \<Rightarrow> Inl e | Inr genes \<Rightarrow> Inr (Some genes)))"

definition get_sequence_from_cache ::
  "path \<Rightarrow> sequence \<Rightarrow> state \<Rightarrow> error + (sequence \<times> string \<times> string) option" where
  "get_sequence_from_cache cache_path s st =
     (case files st (path_str (sequence_file cache_path s)) of
        None \<Rightarrow> Inr None
      | Some text \<Rightarrow>
          (case re_search REGEX_FASTA text of
             None \<Rightarrow> Inl AttributeError
           | Some mt \<Rightarrow> (case groups2 mt of (seq_id, seq) \<Rightarrow> Inr (Some (s, seq_id, seq)))))"

text \<open>
  \<open>aiometer.amap\<close>: the operations run in the order of the items, each from the state the
  one before left, and the results are gathered in that order.
\<close>

fun amap :: "('a \<Rightarrow> state \<Rightarrow> 'b result) \<Rightarrow> 'a list \<Rightarrow> state \<Rightarrow> 'b list result" where
  "amap f [] st = Some (Inr ([], st))"
| "amap f (x # xs) st =
     rbind (f x st) (\<lambda>y st'.
       rbind (amap f xs st') (\<lambda>ys st''. Some (Inr (y # ys, st''))))"

text \<open>\<open>[x for x in results if x is not None]\<close>\<close>

definition not_none :: "'a option list \<Rightarrow> 'a list" where
  "not_none results = map the (filter (\<lambda>x. x \<noteq> None) results)"

record args =
  args_input :: "string list"
  args_output :: string
  args_output_exists :: bool
  args_force :: bool
  args_cache_dir :: "string option"

text \<open>
  \<open>main\<close>, lines 44 to 69, from the lines read from the input file to \<open>genes_plain\<close>.
  \<open>cache_path / "enzyme"\<close> raises \<open>TypeError\<close> when \<open>cache_path\<close> is \<open>None\<close>.
\<close>

definition main_genes :: "env \<Rightarrow> path option \<Rightarrow> string list \<Rightarrow> state \<Rightarrow> string list list result" where
  "main_genes env cache_path ec_numbers st =
     rbind (case cache_path of
              None \<Rightarrow> Some (Inr ((ec_numbers, []), st))
            | Some cp \<Rightarrow> lift (get_sequences_fetch_cache ec_numbers (truediv cp ''enzyme'')
                               get_enzyme_from_cache st) st)
       (\<lambda>hits st1. case hits of (ec_numbers', cached_genes) \<Rightarrow>
          (case cache_path of
             None \<Rightarrow> Some (Inl TypeError)
           | Some cp \<Rightarrow>
               rbind (amap (fetch_enzyme env (Some (truediv cp ''enzyme''))) ec_numbers' st1)
                 (\<lambda>results st2.
                    Some (Inr (concat (cached_genes @ not_none results), st2)))))"

text \<open>The rows of \<open>genes_plain\<close> after the loop that appends the sequence found for each.\<close>

definition merge_sequences ::
  "((string \<times> string) \<rightharpoonup> string list) \<Rightarrow> string list list \<Rightarrow> string list list" where
  "merge_sequences sequence_dict genes_plain =
     map (\<lambda>gene. case sequence_dict (gene ! 1, gene ! 2) of
                   None \<Rightarrow> gene
                 | Some s \<Rightarrow> gene @ s) genes_plain"

definition missing_sequences ::
  "((string \<times> string) \<rightharpoonup> string list) \<Rightarrow> string list list \<Rightarrow> string list" where
  "missing_sequences sequence_dict genes_plain =
     concat (map (\<lambda>gene. case sequence_dict (gene ! 1, gene ! 2) of
                   None \<Rightarrow> [''Could not find sequence for '' @ gene ! 1 @ '':'' @ gene ! 2]
                 | Some s \<Rightarrow> []) genes_plain)"

text \<open>
  \<open>main\<close>, lines 71 to 103, from \<open>genes_plain\<close> to the rows handed to the writer. In the
  dictionary a later entry for a key replaces an earlier one.
\<close>

definition main_sequences ::
  "env \<Rightarrow> path option \<Rightarrow> string list list \<Rightarrow> state \<Rightarrow> string list list result" where
  "main_sequences env cache_path genes_plain st =
     (let unique_sequences = sort (remdups (map (\<lambda>g. (g ! 1, g ! 2)) genes_plain));
          sequences_to_fetch = map (\<lambda>s. \<lparr>organism = fst s, ident = snd s\<rparr>) unique_sequences
      in rbind (case cache_path of
                  None \<Rightarrow> Some (Inr ((sequences_to_fetch, []), st))
                | Some cp \<Rightarrow> lift (get_sequences_fetch_cache sequences_to_fetch
                                   (truediv cp ''aaseq'') get_sequence_from_cache st) st)
           (\<lambda>hits st1. case hits of (sequences_to_fetch', cached_sequences) \<Rightarrow>
              (case cache_path of
                 None \<Rightarrow> Some (Inl TypeError)
               | Some cp \<Rightarrow>
                   rbind (amap (fetch_sequence env (Some (truediv cp ''aaseq'')))
                            sequences_to_fetch' st1)
                     (\<lambda>results st2.
                        (let sequence_dict = map_of (rev (map
                               (\<lambda>s. ((organism (fst s), ident (fst s)), [fst (snd s), snd (snd s)]))
                               (not_none results @ cached_sequences)))
                         in Some (Inr (merge_sequences sequence_dict genes_plain,
                              st2\<lparr>printed := printed st2 @
                                 missing_sequences sequence_dict genes_plain\<rparr>)))))))"

text \<open>
  \<open>main\<close>: \<open>None\<close> when the output exists and is not forced, else the rows written under
  the header \<open>enzyme_code, organism, sequence_id, sequence_description, sequence_aa\<close>.
\<close>

definition get_sequences_main :: "env \<Rightarrow> args \<Rightarrow> state \<Rightarrow> string list list option result" where
  "get_sequences_main env a st =
     (if args_output_exists a \<and> \<not> args_force a
      then Some (Inr (None, st\<lparr>printed := printed st @ [args_output a @ '' exists, not downloading'']\<rparr>))
      else
        (let cache_path = (case args_cache_dir a of
                             None \<Rightarrow> None
                           | Some d \<Rightarrow> if d = [] then None else Some (parse_path d))
         in rbind (main_genes env cache_path (args_input a) st)
              (\<lambda>genes_plain st1.
                 rbind (main_sequences env cache_path genes_plain st1)
                   (\<lambda>rows st2. Some (Inr (Some rows, st2))))))"

section \<open>get\_enzymes.py\<close>

record pathway =
  pathway_id :: string
  pathway_organism :: string

text \<open>\<^verbatim>\<open>sorted(list(set(REGEX_EC_NUMBERS.findall(text))))\<close>, the expression of
  \<open>fetch_pathway\<close> and of \<open>_get_pathway_from_cache\<close>.\<close>

definition ec_numbers_of :: "string \<Rightarrow> string list" where
  "ec_numbers_of text = sort (remdups (re_findall REGEX_EC_NUMBERS text))"

definition pathway_file :: "path \<Rightarrow> pathway \<Rightarrow> path" where
  "pathway_file cache_path p =
     truediv (truediv cache_path (pathway_organism p)) (pathway_id p @ ''.txt'')"

definition fetch_pathway ::
  "env \<Rightarrow> path option \<Rightarrow> pathway \<Rightarrow> state \<Rightarrow> string list list result" where
  "fetch_pathway env cache_path p st =
     (case fetch_with_retry env (''/get/'' @ pathway_id p) st of
        None \<Rightarrow> None
      | Some (response, st1) \<Rightarrow>
          (let st2 = (case cache_path of
                        None \<Rightarrow> st1
                      | Some cp \<Rightarrow> st1\<lparr>files := (files st1)
                          (path_str (pathway_file cp p) \<mapsto> resp_text response)\<rparr>);
               ec_numbers = ec_numbers_of (resp_text response)
           in Some (Inr (map (\<lambda>n. [pathway_organism p, pathway_id p, n]) ec_numbers, st2))))"

definition get_pathway_from_cache :: "path \<Rightarrow> pathway \<Rightarrow> state \<Rightarrow> string list list option" where
  "get_pathway_from_cache cache_path p st =
     (case files st (path_str (pathway_file cache_path p)) of
        None \<Rightarrow> None
      | Some text \<Rightarrow>
          Some (map (\<lambda>n. [pathway_organism p, pathway_id p, n]) (ec_numbers_of text)))"

definition get_enzymes_fetch_cache ::
  "pathway list \<Rightarrow> path \<Rightarrow> state \<Rightarrow> pathway list \<times> string list list list" where
  "get_enzymes_fetch_cache pathways cache_path st =
     (let cache_results = map (\<lambda>p. get_pathway_from_cache cache_path p st) pathways
      in (map fst (filter (\<lambda>pr. snd pr = None) (zip pathways cache_results)),
          not_none cache_results))"

record enzymes_args =
  enzymes_input :: "pathway list"
  enzymes_output :: string
  enzymes_output_exists :: bool
  enzymes_force :: bool
  enzymes_cache_dir :: "string option"

text \<open>\<open>main\<close> of get\_enzymes.py: the rows written under \<open>organism, pathway, code_enzyme\<close>.\<close>

definition get_enzymes_main ::
  "env \<Rightarrow> enzymes_args \<Rightarrow> state \<Rightarrow> string list list option result" where
  "get_enzymes_main env a st =
     (if enzymes_output_exists a \<and> \<not> enzymes_force a
      then Some (Inr (None, st\<lparr>printed := printed st @ [enzymes_output a @ '' exists, not downloading'']\<rparr>))
      else
        (let cache_path = (case enzymes_cache_dir a of
                             None \<Rightarrow> None
                           | Some d \<Rightarrow> if d = [] then None
                                       else Some (truediv (parse_path d) ''pathway''));
             hits = (case cache_path of
                       None \<Rightarrow> (enzymes_input a, [])
                     | Some cp \<Rightarrow> get_enzymes_fetch_cache (enzymes_input a) cp st)
         in rbind (amap (fetch_pathway env cache_path) (fst hits) st)
              (\<lambda>enzymes st1. Some (Inr (Some (sort (concat (snd hits @ enzymes))), st1)))))"

section \<open>get\_pathways.py and get\_organisms.py: the order of the rows\<close>

text \<open>
  \<^verbatim>\<open>sorted(list(itertools.chain.from_iterable(pathways)), key=lambda x: (x[0], x[1]))\<close>:
  the key of a row with fewer than two fields raises \<open>IndexError\<close>.
\<close>

definition pathways_plain :: "string list list list \<Rightarrow> error + string list list" where
  "pathways_plain pathways =
     (let rows = concat pathways
      in if list_all (\<lambda>x. 2 \<le> length x) rows
         then Inr (sort_key (\<lambda>x. (x ! 0, x ! 1)) rows)
         else Inl IndexError)"

text \<open>\<^verbatim>\<open>sorted(organisms, key=lambda x: x[0])\<close>\<close>

definition organisms_sorted :: "string list list \<Rightarrow> error + string list list" where
  "organisms_sorted organisms =
     (if list_all (\<lambda>x. 1 \<le> length x) organisms
      then Inr (sort_key (\<lambda>x. x ! 0) organisms)
      else Inl IndexError)"

declare retry_loop.simps [code]

section \<open>Example runs\<close>

text \<open>A server that answers every request with the same status and text, and a fresh state.\<close>

definition constant_server :: "nat \<Rightarrow> string \<Rightarrow> env" where
  "constant_server status body =
     \<lparr>server = (\<lambda>n path. \<lparr>status_code = status, resp_text = body\<rparr>), rnd = (\<lambda>n. 1 / 2)\<rparr>"

definition empty_state :: state where
  "empty_state = \<lparr>requests = 0, draws = 0, sleeps = [], files = Map.empty, printed = []\<rparr>"

definition example_fasta :: string where
  "example_fasta = ''>hsa:124 ADH1A\<newline>MSTAG\<newline>KVIKC\<newline>''"

definition example_sequence :: sequence where
  "example_sequence = \<lparr>organism = ''hsa'', ident = ''124''\<rparr>"

text \<open>
  An enzyme entry with a gene line that has no organism code, a well-formed entry whose
  gene lines are not in alphabetical order, and a server that answers \<open>/get/ec:1\<close> with the
  first, \<open>/get/ec:2\<close> with the second and any other request with a FASTA text.
\<close>

definition example_bad_entry :: string where
  "example_bad_entry = ''ENTRY 1\<newline>GENES A: 1\<newline> b\<newline>D\<newline>///\<newline>''"

definition example_entry :: string where
  "example_entry = ''ENTRY 2\<newline>GENES B: 2\<newline> A: 1\<newline>D\<newline>///\<newline>''"

definition example_env :: env where
  "example_env =
     \<lparr>server = (\<lambda>n path. \<lparr>status_code = 200,
         resp_text = (if path = ''/get/ec:1'' then example_bad_entry
                      else if path = ''/get/ec:2'' then example_entry
                      else ''>x\<newline>MK\<newline>'')\<rparr>),
      rnd = (\<lambda>n. 1 / 2)\<rparr>"

definition example_args :: "string list \<Rightarrow> args" where
  "example_args ec_numbers =
     \<lparr>args_input = ec_numbers, args_output = ''out.csv'', args_output_exists = False,
      args_force = False, args_cache_dir = Some ''/cache''\<rparr>"

text \<open>A server that rejects the first two requests with status 403.\<close>

definition example_throttled :: env where
  "example_throttled =
     \<lparr>server = (\<lambda>n path. \<lparr>status_code = (if n < 2 then 403 else 200), resp_text = ''ok''\<rparr>),
      rnd = (\<lambda>n. 1 / 2)\<rparr>"

section \<open>Conditions named by the claims\<close>

text \<open>
  The condition under which the loop of \<open>fetch_sequence\<close> breaks: a header and a body are
  found and neither is empty.
\<close>

definition sequence_response_ok :: "response \<Rightarrow> bool" where
  "sequence_response_ok response =
     (case re_search REGEX_FASTA (resp_text response) of
        None \<Rightarrow> False
      | Some mt \<Rightarrow> fst (groups2 mt) \<noteq> [] \<and> snd (groups2 mt) \<noteq> [])"

text \<open>
  The codes annotated in a text, in the words of the specification: the non-empty strings
  of digits, spaces, dots and dashes that stand between \<open>[EC:\<close> and \<open>]\<close> somewhere in it.
\<close>

definition ec_annotations :: "string \<Rightarrow> string set" where
  "ec_annotations text =
     {c. c \<noteq> [] \<and> set c \<subseteq> set ec_chars \<and> (\<exists>pre post. text = pre @ ''[EC:'' @ c @ '']'' @ post)}"

text \<open>
  A code annotated in the text \<open>r\<close> that follows a position, the text before the position
  being \<open>b\<close> reversed: the opening \<open>[EC:\<close> may have begun before the position.
\<close>

definition ec_occurs :: "string \<Rightarrow> string \<Rightarrow> string \<Rightarrow> bool" where
  "ec_occurs b r c =
     (c \<noteq> [] \<and> set c \<subseteq> set ec_chars
      \<and> (\<exists>pre post. r = pre @ c @ '']'' @ post \<and> prefix '':CE['' (rev pre @ b)))"

section \<open>Evaluation\<close>

lemmas regex_eval = re_search_def re_sub_def re_findall_def rep.simps set_group_def
  groups2_def group_str_def group0_def upper_def lowercase_def str_lower_def

lemmas genes_eval = parse_genes_def REGEX_GENES_SECTION_def get_kegg_section_regex_def
  regex_gene_row_def regex_parentheses_def

lemmas path_eval = parse_path_def splitroot_def truediv_def joinpath_def path_str_def
  enzyme_cache_file_def enzyme_save_path_def sequence_file_def

lemmas fetch_eval = fetch_with_retry_def retry_loop.simps client_get_def constant_server_def
  empty_state_def numeral_3_eq_3

section \<open>The gene section of an enzyme entry\<close>

text \<open>
  Claim C2, as stated: the text \<open>GENES       HSA: 124(ADH1A) 125(ADH1B)\<close> followed by
  a newline yields exactly the records \<open>("hsa", "124")\<close> and \<open>("hsa", "125")\<close>. It does
  not: the pattern of the section ends at a newline followed by an uppercase letter, which
  this text lacks, so no section is found.
\<close>

theorem parse_genes_example_counterexample:
  "parse_genes ''1.1.1.1'' ''GENES       HSA: 124(ADH1A) 125(ADH1B)\<newline>''
     \<noteq> Inr [[''1.1.1.1'', ''hsa'', ''124''], [''1.1.1.1'', ''hsa'', ''125'']]"
  by (simp add: genes_eval regex_eval)

text \<open>
  Claim C2, amended: for the text as given \<open>parse_genes\<close> yields no record; when a line
  that starts with an uppercase letter follows the section and one token of the line is
  annotated, as in \<open>GENES       HSA: 124 125(ADH1B)\<close> followed by \<open>DBLINKS\<close>, it yields
  exactly the records of \<open>hsa\<close> with \<open>124\<close> and with \<open>125\<close> under the EC number supplied:
  the annotation is stripped and the organism code is lowercased.
\<close>

theorem parse_genes_example:
  "parse_genes ec ''GENES       HSA: 124(ADH1A) 125(ADH1B)\<newline>'' = Inr []
   \<and> parse_genes ec ''GENES       HSA: 124 125(ADH1B)\<newline>DBLINKS''
       = Inr [[ec, ''hsa'', ''124''], [ec, ''hsa'', ''125'']]"
  by (simp add: genes_eval regex_eval)

text \<open>
  With two annotated tokens on a line, \<open>\(.+\)\<close> takes everything from the first opening
  to the last closing parenthesis, and the tokens in between are lost.
\<close>

lemma parse_genes_greedy_parentheses:
  "parse_genes ec ''GENES       HSA: 124(ADH1A) 125(ADH1B)\<newline>DBLINKS''
     = Inr [[ec, ''hsa'', ''124'']]"
  by (simp add: genes_eval regex_eval)

section \<open>Sequences from the cache and from the server\<close>

text \<open>
  Claim C1: on the same text the cache lookup and the live fetch give the same record.
  The code does not: \<open>fetch_sequence\<close> strips what is not an uppercase letter from the
  sequence, \<open>_get_sequence_from_cache\<close> returns the group as matched, newlines included.
\<close>

theorem cache_live_differ:
  "get_sequence_from_cache (parse_path ''/cache/aaseq'') example_sequence
      (empty_state\<lparr>files := [''/cache/aaseq/hsa/124.txt'' \<mapsto> example_fasta]\<rparr>)
     = Inr (Some (example_sequence, ''hsa:124 ADH1A'', ''MSTAG\<newline>KVIKC\<newline>''))
   \<and> map_option (map_sum id fst)
        (fetch_sequence (constant_server 200 example_fasta) (Some (parse_path ''/cache/aaseq''))
           example_sequence empty_state)
     = Some (Inr (Some (example_sequence, ''hsa:124 ADH1A'', ''MSTAGKVIKC'')))"
  by (simp add: get_sequence_from_cache_def fetch_sequence_def example_sequence_def
      example_fasta_def fetch_eval REGEX_FASTA_def regex_not_upper_def path_eval regex_eval)

section \<open>The cache path of an EC number\<close>

lemma str_split_not_Nil: "str_split c s \<noteq> []"
  by (induction s) (auto split: list.splits)

lemma str_split_no_sep: "w \<in> set (str_split c s) \<Longrightarrow> c \<notin> set w"
  by (induction s arbitrary: w) (auto split: if_splits list.splits)

lemma str_split_subset: "w \<in> set (str_split c s) \<Longrightarrow> set w \<subseteq> set s"
proof (induction s arbitrary: w)
  case Nil
  then show ?case by simp
next
  case (Cons a s)
  show ?case
  proof (cases "a = c")
    case True
    with Cons show ?thesis by auto
  next
    case False
    obtain v vs where vs: "str_split c s = v # vs"
      using str_split_not_Nil [of c s] by (cases "str_split c s") auto
    with False Cons.prems have "w = a # v \<or> w \<in> set vs" by simp
    moreover have "set v \<subseteq> set s" using Cons.IH [of v] vs by simp
    moreover have "w \<in> set vs \<Longrightarrow> set w \<subseteq> set s" using Cons.IH [of w] vs by simp
    ultimately show ?thesis by auto
  qed
qed

lemma str_split_single: "c \<notin> set w \<Longrightarrow> str_split c w = [w]"
  by (induction w) auto

lemma truediv_plain:
  assumes "seg \<noteq> []" "CHR ''/'' \<notin> set seg" "seg \<noteq> ''.''"
  shows "truediv p seg = Path (path_root p) (path_parts p @ [seg])"
proof -
  from assms(1,2) have "\<not> prefix ''/'' seg"
    by (cases seg) auto
  then have "splitroot seg = ([], seg)"
    by (auto simp: splitroot_def prefix_def)
  with assms \<open>\<not> prefix ''/'' seg\<close> show ?thesis
    by (simp add: truediv_def parse_path_def str_split_single)
qed

lemma joinpath_plain:
  "(\<And>seg. seg \<in> set segs \<Longrightarrow> seg \<noteq> [] \<and> CHR ''/'' \<notin> set seg \<and> seg \<noteq> ''.'')
   \<Longrightarrow> joinpath p segs = Path (path_root p) (path_parts p @ segs)"
  unfolding joinpath_def
proof (induction segs arbitrary: p)
  case Nil
  then show ?case by simp
next
  case (Cons a segs)
  then show ?case by (simp add: truediv_plain)
qed

text \<open>
  Claim C8: the cache file of an EC number lies under the enzyme cache root in the nested
  directories named by the dot-separated segments of the number but the last, and is named
  by the whole number followed by \<open>.txt\<close>; the lookup and the store compute the same
  path; for \<open>1.1.1.1\<close> under \<open>/cache\<close> it is \<open>/cache/1/1/1/1.1.1.1.txt\<close>. The segments
  are directories of their own when the number has no \<open>/\<close> and none of them is empty.
\<close>

theorem enzyme_cache_path:
  "(CHR ''/'' \<notin> set ec_number \<and> [] \<notin> set (butlast (str_split CHR ''.'' ec_number))
      \<longrightarrow> enzyme_cache_file cache_path ec_number
          = Path (path_root cache_path)
              (path_parts cache_path @ butlast (str_split CHR ''.'' ec_number) @ [ec_number @ ''.txt'']))
   \<and> enzyme_save_path cache_path ec_number = enzyme_cache_file cache_path ec_number
   \<and> path_str (enzyme_cache_file (parse_path ''/cache'') ''1.1.1.1'') = ''/cache/1/1/1/1.1.1.1.txt''"
proof (intro conjI impI)
  assume h: "CHR ''/'' \<notin> set ec_number \<and> [] \<notin> set (butlast (str_split CHR ''.'' ec_number))"
  have segs: "seg \<noteq> [] \<and> CHR ''/'' \<notin> set seg \<and> seg \<noteq> ''.''"
    if "seg \<in> set (butlast (str_split CHR ''.'' ec_number))" for seg
  proof -
    from that have mem: "seg \<in> set (str_split CHR ''.'' ec_number)"
      by (rule in_set_butlastD)
    from mem have "CHR ''.'' \<notin> set seg" by (rule str_split_no_sep)
    moreover from mem h have "CHR ''/'' \<notin> set seg"
      using str_split_subset by blast
    moreover from that h have "seg \<noteq> []" by auto
    ultimately show ?thesis by auto
  qed
  have fname: "truediv q (ec_number @ ''.txt'') = Path (path_root q) (path_parts q @ [ec_number @ ''.txt''])" for q
    using h by (intro truediv_plain) auto
  show "enzyme_cache_file cache_path ec_number
          = Path (path_root cache_path)
              (path_parts cache_path @ butlast (str_split CHR ''.'' ec_number) @ [ec_number @ ''.txt''])"
    by (simp add: enzyme_cache_file_def Let_def joinpath_plain [OF segs] fname)
next
  show "enzyme_save_path cache_path ec_number = enzyme_cache_file cache_path ec_number"
    by (simp add: enzyme_save_path_def enzyme_cache_file_def Let_def)
next
  show "path_str (enzyme_cache_file (parse_path ''/cache'') ''1.1.1.1'') = ''/cache/1/1/1/1.1.1.1.txt''"
    by (simp add: path_eval)
qed

theorem enzyme_cache_path_witness:
  "CHR ''/'' \<notin> set ''1.1.1.1'' \<and> [] \<notin> set (butlast (str_split CHR ''.'' ''1.1.1.1''))
   \<and> enzyme_cache_file (Path ''/'' [''cache'']) ''1.1.1.1''
       = Path ''/'' [''cache'', ''1'', ''1'', ''1'', ''1.1.1.1.txt'']
   \<and> enzyme_save_path (Path ''/'' [''cache'']) ''1.1.1.1''
       = Path ''/'' [''cache'', ''1'', ''1'', ''1'', ''1.1.1.1.txt'']"
  using enzyme_cache_path [of "''1.1.1.1''" "Path ''/'' [''cache'']"] by simp

lemmas main_eval = get_sequences_main_def main_genes_def main_sequences_def rbind_def lift_def
  get_sequences_fetch_cache_def get_enzyme_from_cache_def get_sequence_from_cache_def
  fetch_enzyme_def fetch_sequence_def enzyme_response_ok_def regex_terminator_def whitespace_def
  REGEX_FASTA_def regex_not_upper_def not_none_def merge_sequences_def missing_sequences_def
  example_env_def example_args_def example_entry_def example_bad_entry_def Let_def

section \<open>A gene line that does not parse\<close>

lemma parse_gene_lines_error:
  "line \<in> set lines \<Longrightarrow> re_search regex_gene_row line = None
   \<Longrightarrow> parse_gene_lines ec lines genes = Inl AttributeError"
proof (induction lines arbitrary: genes)
  case Nil
  then show ?case by simp
next
  case (Cons l ls)
  show ?case
  proof (cases "re_search regex_gene_row l")
    case None
    then show ?thesis by simp
  next
    case (Some mt)
    with Cons.prems have "line \<in> set ls" by auto
    with Cons.IH Cons.prems Some show ?thesis by (simp split: prod.splits)
  qed
qed

lemma amap_error: "f x st = Some (Inl e) \<Longrightarrow> amap f (x # xs) st = Some (Inl e)"
  by (simp add: rbind_def)

lemma amap_step:
  "f x st = Some (Inr (y, st'))
   \<Longrightarrow> amap f (x # xs) st = rbind (amap f xs st') (\<lambda>ys st''. Some (Inr (y # ys, st'')))"
  by (simp add: rbind_def)

lemma fetch_enzyme_parse_error:
  assumes "enzyme_attempts env ec 3 st = Some (Some r, st1)"
    and "parse_genes ec (resp_text r) = Inl e"
  shows "fetch_enzyme env cp ec st = Some (Inl e)"
  using assms by (simp add: fetch_enzyme_def Let_def)

text \<open>
  Claim C6, as stated: a line of the GENES section without the shape \<open>CODE: list\<close> raises
  an error that the calling fetch operation logs, skipping that one work item, the run
  continuing over the others. The error is raised, but nothing catches it: with the
  EC numbers \<open>1\<close> and \<open>2\<close>, the entry of \<open>1\<close> having such a line, the run ends with the
  error, though on \<open>2\<close> alone it writes two rows.
\<close>

theorem gene_line_error_counterexample:
  "get_sequences_main example_env (example_args [''1'', ''2'']) empty_state
     = Some (Inl AttributeError)
   \<and> map_option (map_sum id fst)
        (get_sequences_main example_env (example_args [''2'']) empty_state)
     = Some (Inr (Some [[''2'', ''b'', ''2'', ''x'', ''MK''], [''2'', ''a'', ''1'', ''x'', ''MK'']]))"
  by (simp add: main_eval fetch_eval genes_eval regex_eval path_eval)

text \<open>
  Claim C6, amended: when a line of the GENES section found in a text has no match of the
  gene row pattern, \<open>parse_genes\<close> raises \<open>AttributeError\<close>; the error leaves \<open>fetch_enzyme\<close>
  (and the cache lookup of the enzyme), which do not catch it, and ends the run of the
  operations and of \<open>main\<close>: the run aborts instead of skipping the work item.
\<close>

theorem gene_line_error_aborts:
  assumes "re_search REGEX_GENES_SECTION text = Some mt"
    and "line \<in> set (str_split CHR ''\<newline>'' (group0 mt))"
    and "re_search regex_gene_row line = None"
  shows "parse_genes ec text = Inl AttributeError
    \<and> (enzyme_attempts env ec 3 st = Some (Some r, st1) \<and> resp_text r = text
        \<longrightarrow> fetch_enzyme env cp ec st = Some (Inl AttributeError)
          \<and> amap (fetch_enzyme env cp) (ec # post) st = Some (Inl AttributeError))
    \<and> (files st (path_str (enzyme_cache_file croot ec)) = Some text
        \<longrightarrow> get_enzyme_from_cache croot ec st = Inl AttributeError)
    \<and> (args_cache_dir a = Some d \<and> d \<noteq> [] \<and> (args_output_exists a \<longrightarrow> args_force a)
        \<and> get_sequences_fetch_cache (args_input a) (truediv (parse_path d) ''enzyme'')
             get_enzyme_from_cache st = Inr (ec # post, cached)
        \<and> enzyme_attempts env ec 3 st = Some (Some r, st1) \<and> resp_text r = text
        \<longrightarrow> get_sequences_main env a st = Some (Inl AttributeError))"
proof -
  have parse: "parse_genes ec text = Inl AttributeError"
    using assms by (simp add: parse_genes_def parse_gene_lines_error)
  have fetch: "fetch_enzyme env cp' ec st = Some (Inl AttributeError)"
    if "enzyme_attempts env ec 3 st = Some (Some r, st1)" "resp_text r = text" for cp'
    using that parse by (simp add: fetch_enzyme_parse_error)
  have run: "amap (fetch_enzyme env cp') (ec # post) st = Some (Inl AttributeError)"
    if "enzyme_attempts env ec 3 st = Some (Some r, st1)" "resp_text r = text" for cp'
    using fetch [OF that] by (rule amap_error)
  have cache: "get_enzyme_from_cache croot ec st = Inl AttributeError"
    if "files st (path_str (enzyme_cache_file croot ec)) = Some text"
    using that parse by (simp add: get_enzyme_from_cache_def)
  have whole: "get_sequences_main env a st = Some (Inl AttributeError)"
    if "args_cache_dir a = Some d" "d \<noteq> []" "args_output_exists a \<longrightarrow> args_force a"
      "get_sequences_fetch_cache (args_input a) (truediv (parse_path d) ''enzyme'')
             get_enzyme_from_cache st = Inr (ec # post, cached)"
      "enzyme_attempts env ec 3 st = Some (Some r, st1)" "resp_text r = text"
  proof -
    have "main_genes env (Some (parse_path d)) (args_input a) st = Some (Inl AttributeError)"
      using that(4) run [OF that(5,6)] by (simp add: main_genes_def lift_def rbind_def)
    with that(1,2,3) show ?thesis
      by (auto simp: get_sequences_main_def rbind_def)
  qed
  from parse fetch run cache whole show ?thesis by blast
qed

theorem gene_line_error_aborts_witness:
  "re_search REGEX_GENES_SECTION example_bad_entry = Some ('' A: 1\<newline> b'', [(1, ''b'')])
   \<and> '' b'' \<in> set (str_split CHR ''\<newline>'' (group0 ('' A: 1\<newline> b'', [(1, ''b'')])))
   \<and> re_search regex_gene_row '' b'' = None
   \<and> parse_genes ''1'' example_bad_entry = Inl AttributeError
   \<and> enzyme_attempts example_env ''1'' 3 empty_state
       = Some (Some \<lparr>status_code = 200, resp_text = example_bad_entry\<rparr>,
               empty_state\<lparr>requests := 1, draws := 1\<rparr>)
   \<and> fetch_enzyme example_env (Some (parse_path ''/cache/enzyme'')) ''1'' empty_state
       = Some (Inl AttributeError)
   \<and> amap (fetch_enzyme example_env (Some (parse_path ''/cache/enzyme''))) [''1'', ''2''] empty_state
       = Some (Inl AttributeError)
   \<and> get_sequences_main example_env (example_args [''1'', ''2'']) empty_state
       = Some (Inl AttributeError)"
proof -
  have 1: "re_search REGEX_GENES_SECTION example_bad_entry = Some ('' A: 1\<newline> b'', [(1, ''b'')])"
    by (simp add: example_bad_entry_def genes_eval regex_eval)
  have 2: "'' b'' \<in> set (str_split CHR ''\<newline>'' (group0 ('' A: 1\<newline> b'', [(1, ''b'')])))"
    by (simp add: group0_def)
  have 3: "re_search regex_gene_row '' b'' = None"
    by (simp add: genes_eval regex_eval)
  have 4: "enzyme_attempts example_env ''1'' 3 empty_state
       = Some (Some \<lparr>status_code = 200, resp_text = example_bad_entry\<rparr>,
               empty_state\<lparr>requests := 1, draws := 1\<rparr>)"
    by (simp add: main_eval fetch_eval regex_eval)
  have 5: "get_sequences_fetch_cache (args_input (example_args [''1'', ''2'']))
       (truediv (parse_path ''/cache'') ''enzyme'') get_enzyme_from_cache empty_state
       = Inr ([''1'', ''2''], [])"
    by (simp add: main_eval fetch_eval path_eval)
  have 6: "args_cache_dir (example_args [''1'', ''2'']) = Some ''/cache'' \<and> ''/cache'' \<noteq> []
     \<and> (args_output_exists (example_args [''1'', ''2'']) \<longrightarrow> args_force (example_args [''1'', ''2'']))"
    by (simp add: example_args_def)
  from gene_line_error_aborts [OF 1 2 3, of "''1''" example_env empty_state
      "\<lparr>status_code = 200, resp_text = example_bad_entry\<rparr>" "empty_state\<lparr>requests := 1, draws := 1\<rparr>"
      "Some (parse_path ''/cache/enzyme'')" "[''2'']" "parse_path ''/cache/enzyme''"
      "example_args [''1'', ''2'']" "''/cache''" "[]"]
    1 2 3 4 5 6
  show ?thesis by (simp del: amap.simps)
qed

section \<open>Three failed attempts\<close>

lemma enzyme_attempts_retry:
  "fetch_with_retry env (''/get/ec:'' @ ec) st = Some (r, st') \<Longrightarrow> \<not> enzyme_response_ok ec r
   \<Longrightarrow> enzyme_attempts env ec (Suc k) st = enzyme_attempts env ec k st'"
  by simp

lemma sequence_attempts_retry:
  "fetch_with_retry env p st = Some (r, st') \<Longrightarrow> \<not> sequence_response_ok r
   \<Longrightarrow> sequence_attempts env p (Suc k) st = sequence_attempts env p k st'"
  by (auto simp: sequence_response_ok_def split: option.splits prod.splits)

lemma enzyme_attempts_exhausted:
  assumes "fetch_with_retry env (''/get/ec:'' @ ec) st = Some (r1, st1)" "\<not> enzyme_response_ok ec r1"
    and "fetch_with_retry env (''/get/ec:'' @ ec) st1 = Some (r2, st2)" "\<not> enzyme_response_ok ec r2"
    and "fetch_with_retry env (''/get/ec:'' @ ec) st2 = Some (r3, st3)" "\<not> enzyme_response_ok ec r3"
  shows "enzyme_attempts env ec 3 st = Some (None, st3)"
proof -
  have "enzyme_attempts env ec 3 st = enzyme_attempts env ec 2 st1"
    using enzyme_attempts_retry [OF assms(1,2), of 2] by (simp add: numeral_3_eq_3 numeral_2_eq_2)
  also have "\<dots> = enzyme_attempts env ec 1 st2"
    using enzyme_attempts_retry [OF assms(3,4), of 1] by (simp add: numeral_2_eq_2)
  also have "\<dots> = enzyme_attempts env ec 0 st3"
    using enzyme_attempts_retry [OF assms(5,6), of 0] by simp
  finally show ?thesis by simp
qed

lemma sequence_attempts_exhausted:
  assumes "fetch_with_retry env p st = Some (r1, st1)" "\<not> sequence_response_ok r1"
    and "fetch_with_retry env p st1 = Some (r2, st2)" "\<not> sequence_response_ok r2"
    and "fetch_with_retry env p st2 = Some (r3, st3)" "\<not> sequence_response_ok r3"
  shows "sequence_attempts env p 3 st = Some (None, st3)"
proof -
  have "sequence_attempts env p 3 st = sequence_attempts env p 2 st1"
    using sequence_attempts_retry [OF assms(1,2), of 2] by (simp add: numeral_3_eq_3 numeral_2_eq_2)
  also have "\<dots> = sequence_attempts env p 1 st2"
    using sequence_attempts_retry [OF assms(3,4), of 1] by (simp add: numeral_2_eq_2)
  also have "\<dots> = sequence_attempts env p 0 st3"
    using sequence_attempts_retry [OF assms(5,6), of 0] by simp
  finally show ?thesis by simp
qed

lemma fetch_sequence_gives_up:
  assumes "fetch_with_retry env (''/get/'' @ organism s @ '':'' @ ident s @ ''/aaseq'') st = Some (r1, st1)"
      "\<not> sequence_response_ok r1"
    and "fetch_with_retry env (''/get/'' @ organism s @ '':'' @ ident s @ ''/aaseq'') st1 = Some (r2, st2)"
      "\<not> sequence_response_ok r2"
    and "fetch_with_retry env (''/get/'' @ organism s @ '':'' @ ident s @ ''/aaseq'') st2 = Some (r3, st3)"
      "\<not> sequence_response_ok r3"
  shows "fetch_sequence env cache_path s st = Some (Inr (None,
           st3\<lparr>printed := printed st3 @ [''Could not get sequence '' @ organism s @ '':'' @ ident s]\<rparr>))"
  using sequence_attempts_exhausted [OF assms] by (simp add: fetch_sequence_def)

text \<open>
  Claim C4: when the content check fails on the response of each attempt, \<open>fetch_enzyme\<close>
  and \<open>fetch_sequence\<close> fetch exactly three times, each fetch from the state the one before
  left, and give up: they print a line and return \<open>None\<close> in the state after the third
  fetch. The run goes on with the items that remain, and the \<open>None\<close> adds no row to what is
  gathered.
\<close>

theorem bounded_retry_gives_up:
  "(fetch_with_retry env (''/get/ec:'' @ ec_number) st = Some (r1, st1)
      \<and> \<not> enzyme_response_ok ec_number r1
    \<and> fetch_with_retry env (''/get/ec:'' @ ec_number) st1 = Some (r2, st2)
      \<and> \<not> enzyme_response_ok ec_number r2
    \<and> fetch_with_retry env (''/get/ec:'' @ ec_number) st2 = Some (r3, st3)
      \<and> \<not> enzyme_response_ok ec_number r3
    \<longrightarrow> fetch_enzyme env cache_path ec_number st
          = Some (Inr (None, st3\<lparr>printed := printed st3 @ [''Error fetching '' @ ec_number]\<rparr>))
      \<and> amap (fetch_enzyme env cache_path) (ec_number # ec_numbers) st
          = rbind (amap (fetch_enzyme env cache_path) ec_numbers
                     (st3\<lparr>printed := printed st3 @ [''Error fetching '' @ ec_number]\<rparr>))
              (\<lambda>results st'. Some (Inr (None # results, st'))))
   \<and> (fetch_with_retry env (''/get/'' @ organism s @ '':'' @ ident s @ ''/aaseq'') t = Some (q1, t1)
      \<and> \<not> sequence_response_ok q1
    \<and> fetch_with_retry env (''/get/'' @ organism s @ '':'' @ ident s @ ''/aaseq'') t1 = Some (q2, t2)
      \<and> \<not> sequence_response_ok q2
    \<and> fetch_with_retry env (''/get/'' @ organism s @ '':'' @ ident s @ ''/aaseq'') t2 = Some (q3, t3)
      \<and> \<not> sequence_response_ok q3
    \<longrightarrow> fetch_sequence env cache_path s t
          = Some (Inr (None, t3\<lparr>printed := printed t3 @
               [''Could not get sequence '' @ organism s @ '':'' @ ident s]\<rparr>))
      \<and> amap (fetch_sequence env cache_path) (s # sequences) t
          = rbind (amap (fetch_sequence env cache_path) sequences
                     (t3\<lparr>printed := printed t3 @
                        [''Could not get sequence '' @ organism s @ '':'' @ ident s]\<rparr>))
              (\<lambda>results st'. Some (Inr (None # results, st'))))
   \<and> not_none (None # genes) = not_none genes"
proof (intro conjI impI)
  assume h: "fetch_with_retry env (''/get/ec:'' @ ec_number) st = Some (r1, st1)
      \<and> \<not> enzyme_response_ok ec_number r1
    \<and> fetch_with_retry env (''/get/ec:'' @ ec_number) st1 = Some (r2, st2)
      \<and> \<not> enzyme_response_ok ec_number r2
    \<and> fetch_with_retry env (''/get/ec:'' @ ec_number) st2 = Some (r3, st3)
      \<and> \<not> enzyme_response_ok ec_number r3"
  then have "enzyme_attempts env ec_number 3 st = Some (None, st3)"
    by (intro enzyme_attempts_exhausted) auto
  then show e: "fetch_enzyme env cache_path ec_number st
          = Some (Inr (None, st3\<lparr>printed := printed st3 @ [''Error fetching '' @ ec_number]\<rparr>))"
    by (simp add: fetch_enzyme_def)
  show "amap (fetch_enzyme env cache_path) (ec_number # ec_numbers) st
          = rbind (amap (fetch_enzyme env cache_path) ec_numbers
                     (st3\<lparr>printed := printed st3 @ [''Error fetching '' @ ec_number]\<rparr>))
              (\<lambda>results st'. Some (Inr (None # results, st')))"
    using e by (rule amap_step)
next
  assume h: "fetch_with_retry env (''/get/'' @ organism s @ '':'' @ ident s @ ''/aaseq'') t = Some (q1, t1)
      \<and> \<not> sequence_response_ok q1
    \<and> fetch_with_retry env (''/get/'' @ organism s @ '':'' @ ident s @ ''/aaseq'') t1 = Some (q2, t2)
      \<and> \<not> sequence_response_ok q2
    \<and> fetch_with_retry env (''/get/'' @ organism s @ '':'' @ ident s @ ''/aaseq'') t2 = Some (q3, t3)
      \<and> \<not> sequence_response_ok q3"
  then show e: "fetch_sequence env cache_path s t
          = Some (Inr (None, t3\<lparr>printed := printed t3 @
               [''Could not get sequence '' @ organism s @ '':'' @ ident s]\<rparr>))"
    by (intro fetch_sequence_gives_up) auto
  show "amap (fetch_sequence env cache_path) (s # sequences) t
          = rbind (amap (fetch_sequence env cache_path) sequences
                     (t3\<lparr>printed := printed t3 @
                        [''Could not get sequence '' @ organism s @ '':'' @ ident s]\<rparr>))
              (\<lambda>results st'. Some (Inr (None # results, st')))"
    using e by (rule amap_step)
next
  show "not_none (None # genes) = not_none genes"
    by (simp add: not_none_def)
qed

theorem bounded_retry_gives_up_witness:
  "fetch_with_retry (constant_server 500 ''oops'') ''/get/ec:1.1.1.1'' empty_state
     = Some (\<lparr>status_code = 500, resp_text = ''oops''\<rparr>, empty_state\<lparr>requests := 1, draws := 1\<rparr>)
   \<and> \<not> enzyme_response_ok ''1.1.1.1'' \<lparr>status_code = 500, resp_text = ''oops''\<rparr>
   \<and> \<not> sequence_response_ok \<lparr>status_code = 500, resp_text = ''oops''\<rparr>
   \<and> fetch_enzyme (constant_server 500 ''oops'') None ''1.1.1.1'' empty_state
     = Some (Inr (None, empty_state\<lparr>requests := 3, draws := 3, printed := [''Error fetching 1.1.1.1'']\<rparr>))
   \<and> amap (fetch_enzyme (constant_server 500 ''oops'') None) [''1.1.1.1''] empty_state
     = Some (Inr ([None], empty_state\<lparr>requests := 3, draws := 3, printed := [''Error fetching 1.1.1.1'']\<rparr>))
   \<and> fetch_sequence (constant_server 500 ''oops'') None example_sequence empty_state
     = Some (Inr (None, empty_state\<lparr>requests := 3, draws := 3,
          printed := [''Could not get sequence hsa:124'']\<rparr>))"
proof -
  let ?E = "constant_server 500 ''oops''"
  let ?r = "\<lparr>status_code = 500, resp_text = ''oops''\<rparr>"
  let ?s1 = "empty_state\<lparr>requests := 1, draws := 1\<rparr>"
  let ?s2 = "empty_state\<lparr>requests := 2, draws := 2\<rparr>"
  let ?s3 = "empty_state\<lparr>requests := 3, draws := 3\<rparr>"
  have f0: "fetch_with_retry ?E p empty_state = Some (?r, ?s1)" for p
    by (simp add: fetch_eval)
  have f1: "fetch_with_retry ?E p ?s1 = Some (?r, ?s2)" for p
    by (simp add: fetch_eval)
  have f2: "fetch_with_retry ?E p ?s2 = Some (?r, ?s3)" for p
    by (simp add: fetch_eval)
  have e: "\<not> enzyme_response_ok ''1.1.1.1'' ?r"
    by (simp add: enzyme_response_ok_def)
  have s: "\<not> sequence_response_ok ?r"
    by (simp add: sequence_response_ok_def REGEX_FASTA_def regex_eval)
  note T = bounded_retry_gives_up [of ?E "''1.1.1.1''" empty_state ?r ?s1 ?r ?s2 ?r ?s3
      None "[]" example_sequence empty_state ?r ?s1 ?r ?s2 ?r ?s3 "[]" "[]"]
  have "fetch_enzyme ?E None ''1.1.1.1'' empty_state
          = Some (Inr (None, ?s3\<lparr>printed := printed ?s3 @ [''Error fetching '' @ ''1.1.1.1'']\<rparr>))
      \<and> amap (fetch_enzyme ?E None) [''1.1.1.1''] empty_state
          = rbind (amap (fetch_enzyme ?E None) []
                     (?s3\<lparr>printed := printed ?s3 @ [''Error fetching '' @ ''1.1.1.1'']\<rparr>))
              (\<lambda>results st'. Some (Inr (None # results, st')))"
    using T [THEN conjunct1] f0 f1 f2 e by blast
  then have c1: "fetch_enzyme ?E None ''1.1.1.1'' empty_state
       = Some (Inr (None, empty_state\<lparr>requests := 3, draws := 3, printed := [''Error fetching 1.1.1.1'']\<rparr>))
     \<and> amap (fetch_enzyme ?E None) [''1.1.1.1''] empty_state
       = Some (Inr ([None], empty_state\<lparr>requests := 3, draws := 3, printed := [''Error fetching 1.1.1.1'']\<rparr>))"
    by (simp del: amap.simps add: amap.simps(1) rbind_def empty_state_def)
  have "fetch_sequence ?E None example_sequence empty_state
          = Some (Inr (None, ?s3\<lparr>printed := printed ?s3 @
               [''Could not get sequence '' @ organism example_sequence @ '':'' @ ident example_sequence]\<rparr>))"
    using T [THEN conjunct2, THEN conjunct1] f0 f1 f2 s by blast
  then have c2: "fetch_sequence ?E None example_sequence empty_state
     = Some (Inr (None, empty_state\<lparr>requests := 3, draws := 3,
          printed := [''Could not get sequence hsa:124'']\<rparr>))"
    by (simp add: empty_state_def example_sequence_def)
  from f0 e s c1 c2 show ?thesis by blast
qed

section \<open>A cached sequence file that is not FASTA\<close>

lemma run_all_Inl:
  "Inl e \<in> set qs \<Longrightarrow> (\<And>e'. Inl e' \<in> set qs \<Longrightarrow> e' = e) \<Longrightarrow> run_all qs = Inl e"
proof (induction qs)
  case Nil
  then show ?case by simp
next
  case (Cons q qs)
  show ?case
  proof (cases q)
    case (Inl e')
    have "e' = e"
      by (rule Cons.prems(2)) (simp add: Inl)
    then have "q = Inl e" using Inl by simp
    then show ?thesis by (simp only: run_all.simps sum.case)
  next
    case (Inr r)
    with Cons.prems(1) have "Inl e \<in> set qs" by auto
    moreover have "e' = e" if "Inl e' \<in> set qs" for e'
      by (rule Cons.prems(2)) (simp add: that)
    ultimately have "run_all qs = Inl e" by (rule Cons.IH)
    with Inr show ?thesis by simp
  qed
qed

lemma get_sequence_from_cache_raises:
  "get_sequence_from_cache cp s st = Inl e \<Longrightarrow> e = AttributeError"
  by (auto simp: get_sequence_from_cache_def split: option.splits prod.splits)

lemma fetch_cache_sequence_error:
  assumes "s \<in> set elements" and "get_sequence_from_cache cp s st = Inl AttributeError"
  shows "get_sequences_fetch_cache elements cp get_sequence_from_cache st = Inl AttributeError"
proof -
  let ?qs = "map (\<lambda>e. get_sequence_from_cache cp e st) elements"
  from assms have "Inl AttributeError \<in> set ?qs"
    by (metis (mono_tags, lifting) image_eqI list.set_map)
  moreover have "\<And>e'. Inl e' \<in> set ?qs \<Longrightarrow> e' = AttributeError"
    using get_sequence_from_cache_raises by (metis (no_types, lifting) ex_map_conv)
  ultimately have "run_all ?qs = Inl AttributeError" by (rule run_all_Inl)
  then show ?thesis by (simp add: get_sequences_fetch_cache_def)
qed

lemma sequence_response_ok_text:
  "re_search REGEX_FASTA (resp_text r) = None \<Longrightarrow> \<not> sequence_response_ok r"
  by (simp add: sequence_response_ok_def)

text \<open>
  Claim C10: when the cache holds a file for a sequence whose text has no match of the
  FASTA pattern, \<open>_get_sequence_from_cache\<close> raises \<open>AttributeError\<close> rather than report a
  miss; nothing catches it, so the lookup of the cache, the second half of \<open>main\<close> and
  \<open>main\<close> itself end with that error. The live fetch that gets the same text on each of
  its three attempts catches the failure and returns \<open>None\<close>.
\<close>

theorem malformed_cache_file_aborts:
  assumes "files st (path_str (sequence_file (truediv croot ''aaseq'') s)) = Some text"
    and "re_search REGEX_FASTA text = None"
  shows "get_sequence_from_cache (truediv croot ''aaseq'') s st = Inl AttributeError
   \<and> (s \<in> set elements
      \<longrightarrow> get_sequences_fetch_cache elements (truediv croot ''aaseq'') get_sequence_from_cache st
          = Inl AttributeError)
   \<and> ((organism s, ident s) \<in> set (map (\<lambda>g. (g ! 1, g ! 2)) genes_plain)
      \<longrightarrow> main_sequences env (Some croot) genes_plain st = Some (Inl AttributeError))
   \<and> (args_cache_dir a = Some d \<and> d \<noteq> [] \<and> parse_path d = croot
        \<and> (args_output_exists a \<longrightarrow> args_force a)
        \<and> main_genes env (Some croot) (args_input a) st0 = Some (Inr (genes_plain, st))
        \<and> (organism s, ident s) \<in> set (map (\<lambda>g. (g ! 1, g ! 2)) genes_plain)
      \<longrightarrow> get_sequences_main env a st0 = Some (Inl AttributeError))
   \<and> (fetch_with_retry env (''/get/'' @ organism s @ '':'' @ ident s @ ''/aaseq'') t = Some (q1, t1)
        \<and> resp_text q1 = text
        \<and> fetch_with_retry env (''/get/'' @ organism s @ '':'' @ ident s @ ''/aaseq'') t1 = Some (q2, t2)
        \<and> resp_text q2 = text
        \<and> fetch_with_retry env (''/get/'' @ organism s @ '':'' @ ident s @ ''/aaseq'') t2 = Some (q3, t3)
        \<and> resp_text q3 = text
      \<longrightarrow> fetch_sequence env cache_path s t
          = Some (Inr (None, t3\<lparr>printed := printed t3 @
               [''Could not get sequence '' @ organism s @ '':'' @ ident s]\<rparr>)))"
proof -
  let ?cp = "truediv croot ''aaseq''"
  have lookup: "get_sequence_from_cache ?cp s st = Inl AttributeError"
    using assms by (simp add: get_sequence_from_cache_def)
  have cache: "get_sequences_fetch_cache elements' ?cp get_sequence_from_cache st = Inl AttributeError"
    if "s \<in> set elements'" for elements'
    using that lookup by (rule fetch_cache_sequence_error)
  have phase: "main_sequences env (Some croot) genes_plain st = Some (Inl AttributeError)"
    if "(organism s, ident s) \<in> set (map (\<lambda>g. (g ! 1, g ! 2)) genes_plain)"
  proof -
    let ?unique = "sort (remdups (map (\<lambda>g. (g ! 1, g ! 2)) genes_plain))"
    let ?to_fetch = "map (\<lambda>s. \<lparr>organism = fst s, ident = snd s\<rparr>) ?unique"
    from that have "(organism s, ident s) \<in> set ?unique" by simp
    then have "(\<lambda>s. \<lparr>organism = fst s, ident = snd s\<rparr>) (organism s, ident s) \<in> set ?to_fetch"
      unfolding set_map by (rule imageI)
    moreover have "\<lparr>organism = organism s, ident = ident s\<rparr> = s"
      by (cases s) simp
    ultimately have "s \<in> set ?to_fetch" by simp
    then have "get_sequences_fetch_cache ?to_fetch ?cp get_sequence_from_cache st = Inl AttributeError"
      by (rule cache)
    then show ?thesis
      by (simp add: main_sequences_def Let_def lift_def rbind_def)
  qed
  have whole: "get_sequences_main env a st0 = Some (Inl AttributeError)"
    if "args_cache_dir a = Some d" "d \<noteq> []" "parse_path d = croot"
      "args_output_exists a \<longrightarrow> args_force a"
      "main_genes env (Some croot) (args_input a) st0 = Some (Inr (genes_plain, st))"
      "(organism s, ident s) \<in> set (map (\<lambda>g. (g ! 1, g ! 2)) genes_plain)"
    using that(1-5) phase [OF that(6)]
    by (auto simp: get_sequences_main_def rbind_def)
  have live: "fetch_sequence env cache_path s t
          = Some (Inr (None, t3\<lparr>printed := printed t3 @
               [''Could not get sequence '' @ organism s @ '':'' @ ident s]\<rparr>))"
    if "fetch_with_retry env (''/get/'' @ organism s @ '':'' @ ident s @ ''/aaseq'') t = Some (q1, t1)"
       "resp_text q1 = text"
       "fetch_with_retry env (''/get/'' @ organism s @ '':'' @ ident s @ ''/aaseq'') t1 = Some (q2, t2)"
       "resp_text q2 = text"
       "fetch_with_retry env (''/get/'' @ organism s @ '':'' @ ident s @ ''/aaseq'') t2 = Some (q3, t3)"
       "resp_text q3 = text"
  proof -
    from that(2,4,6) assms(2)
    have "\<not> sequence_response_ok q1" "\<not> sequence_response_ok q2" "\<not> sequence_response_ok q3"
      by (simp_all add: sequence_response_ok_text)
    with that(1,3,5) show ?thesis
      by (intro fetch_sequence_gives_up)
  qed
  from lookup cache phase whole live show ?thesis by blast
qed

theorem malformed_cache_file_aborts_witness:
  "files (empty_state\<lparr>requests := 1, draws := 1,
       files := [''/cache/aaseq/a/1.txt'' \<mapsto> ''junk'', ''/cache/enzyme/2.txt'' \<mapsto> example_entry]\<rparr>)
      (path_str (sequence_file (truediv (parse_path ''/cache'') ''aaseq'') \<lparr>organism = ''a'', ident = ''1''\<rparr>))
     = Some ''junk''
   \<and> re_search REGEX_FASTA ''junk'' = None
   \<and> get_sequence_from_cache (truediv (parse_path ''/cache'') ''aaseq'') \<lparr>organism = ''a'', ident = ''1''\<rparr>
        (empty_state\<lparr>requests := 1, draws := 1,
           files := [''/cache/aaseq/a/1.txt'' \<mapsto> ''junk'', ''/cache/enzyme/2.txt'' \<mapsto> example_entry]\<rparr>)
     = Inl AttributeError
   \<and> get_sequences_main example_env (example_args [''2''])
        (empty_state\<lparr>files := [''/cache/aaseq/a/1.txt'' \<mapsto> ''junk'']\<rparr>)
     = Some (Inl AttributeError)
   \<and> fetch_sequence (constant_server 200 ''junk'') None \<lparr>organism = ''a'', ident = ''1''\<rparr> empty_state
     = Some (Inr (None, empty_state\<lparr>requests := 3, draws := 3,
          printed := [''Could not get sequence a:1'']\<rparr>))"
proof -
  let ?s = "\<lparr>organism = ''a'', ident = ''1''\<rparr>"
  let ?init = "empty_state\<lparr>files := [''/cache/aaseq/a/1.txt'' \<mapsto> ''junk'']\<rparr>"
  let ?st = "empty_state\<lparr>requests := 1, draws := 1,
       files := [''/cache/aaseq/a/1.txt'' \<mapsto> ''junk'', ''/cache/enzyme/2.txt'' \<mapsto> example_entry]\<rparr>"
  let ?genes = "[[''2'', ''b'', ''2''], [''2'', ''a'', ''1'']]"
  let ?E = "constant_server 200 ''junk''"
  let ?r = "\<lparr>status_code = 200, resp_text = ''junk''\<rparr>"
  let ?s1 = "empty_state\<lparr>requests := 1, draws := 1\<rparr>"
  let ?s2 = "empty_state\<lparr>requests := 2, draws := 2\<rparr>"
  let ?s3 = "empty_state\<lparr>requests := 3, draws := 3\<rparr>"
  have cached: "files ?st (path_str (sequence_file (truediv (parse_path ''/cache'') ''aaseq'') ?s)) = Some ''junk''"
    by (simp add: path_eval empty_state_def)
  have junk: "re_search REGEX_FASTA ''junk'' = None"
    by (simp add: REGEX_FASTA_def regex_eval)
  have genes: "main_genes example_env (Some (parse_path ''/cache'')) (args_input (example_args [''2''])) ?init
      = Some (Inr (?genes, ?st))"
    by (simp add: main_eval fetch_eval genes_eval regex_eval path_eval)
  have a: "args_cache_dir (example_args [''2'']) = Some ''/cache'' \<and> ''/cache'' \<noteq> []
      \<and> (args_output_exists (example_args [''2'']) \<longrightarrow> args_force (example_args [''2'']))"
    by (simp add: example_args_def)
  have key: "(organism ?s, ident ?s) \<in> set (map (\<lambda>g. (g ! 1, g ! 2)) ?genes)"
    by simp
  have f0: "fetch_with_retry ?E p empty_state = Some (?r, ?s1)" for p
    by (simp add: fetch_eval)
  have f1: "fetch_with_retry ?E p ?s1 = Some (?r, ?s2)" for p
    by (simp add: fetch_eval)
  have f2: "fetch_with_retry ?E p ?s2 = Some (?r, ?s3)" for p
    by (simp add: fetch_eval)
  note T = malformed_cache_file_aborts [OF cached junk]
  have c1: "get_sequence_from_cache (truediv (parse_path ''/cache'') ''aaseq'') ?s ?st = Inl AttributeError"
    using T by blast
  have c2: "get_sequences_main example_env (example_args [''2'']) ?init = Some (Inl AttributeError)"
    using T [of _ ?genes example_env "example_args [''2'']" "''/cache''" ?init] genes a key by blast
  have "fetch_sequence ?E None ?s empty_state
      = Some (Inr (None, ?s3\<lparr>printed := printed ?s3 @
               [''Could not get sequence '' @ organism ?s @ '':'' @ ident ?s]\<rparr>))"
    using T [of _ _ ?E _ _ _ empty_state ?r ?s1 ?r ?s2 ?r ?s3 None] f0 f1 f2
    by (simp del: fetch_sequence_def)
  then have c3: "fetch_sequence ?E None ?s empty_state
     = Some (Inr (None, empty_state\<lparr>requests := 3, draws := 3,
          printed := [''Could not get sequence a:1'']\<rparr>))"
    by (simp add: empty_state_def)
  from cached junk c1 c2 c3 show ?thesis by blast
qed

section \<open>The order of the rows handed to the writer\<close>

lemma merge_sequences_prefix: "list_all2 prefix genes_plain (merge_sequences sequence_dict genes_plain)"
  unfolding merge_sequences_def
  by (induction genes_plain) (auto split: option.splits)

lemma main_sequences_rows:
  assumes "main_sequences env cache_path genes_plain st = Some (Inr (rows, st'))"
  shows "list_all2 prefix genes_plain rows"
proof -
  from assms obtain sequence_dict where "rows = merge_sequences sequence_dict genes_plain"
    by (auto simp: main_sequences_def Let_def rbind_def lift_def
        split: option.splits sum.splits prod.splits)
  then show ?thesis by (simp add: merge_sequences_prefix)
qed

lemma get_enzymes_main_sorted:
  assumes "get_enzymes_main env a st = Some (Inr (Some rows, st'))"
  shows "sorted rows"
  using assms
  by (auto simp: get_enzymes_main_def Let_def rbind_def
      split: if_splits option.splits sum.splits prod.splits)

text \<open>
  Claim C7, as stated: every job hands its rows to the writer sorted by the job's key, the
  sequences job too. The sequences job does not sort: the rows of an entry whose gene
  lines list \<open>B\<close> before \<open>A\<close> are written in that order.
\<close>

theorem output_order_counterexample:
  "map_option (map_sum id fst)
     (get_sequences_main example_env (example_args [''2'']) empty_state)
     = Some (Inr (Some [[''2'', ''b'', ''2'', ''x'', ''MK''], [''2'', ''a'', ''1'', ''x'', ''MK'']]))
   \<and> \<not> sorted [[''2'', ''b'', ''2'', ''x'', ''MK''], [''2'', ''a'', ''1'', ''x'', ''MK'']]"
  by (simp add: main_eval fetch_eval genes_eval regex_eval path_eval)

text \<open>
  Claim C7, amended: the enzymes job hands over its rows sorted in the lexicographic order
  of the rows, the pathways job sorted by the first two fields and the organisms job sorted
  by the first field; the sequences job hands over the rows of \<open>genes_plain\<close> in the order
  they were gathered, each extended by the sequence found for it, without sorting them.
\<close>

theorem aggregate_order:
  "(get_enzymes_main env a st = Some (Inr (Some rows, st')) \<longrightarrow> sorted rows)
   \<and> (pathways_plain pathways = Inr prows \<longrightarrow> sorted (map (\<lambda>x. (x ! 0, x ! 1)) prows))
   \<and> (organisms_sorted organisms = Inr orows \<longrightarrow> sorted (map (\<lambda>x. x ! 0) orows))
   \<and> (main_sequences env cache_path genes_plain t = Some (Inr (srows, t'))
        \<longrightarrow> list_all2 prefix genes_plain srows)"
proof (intro conjI impI)
  assume "get_enzymes_main env a st = Some (Inr (Some rows, st'))"
  then show "sorted rows" by (rule get_enzymes_main_sorted)
next
  assume "pathways_plain pathways = Inr prows"
  then have "prows = sort_key (\<lambda>x. (x ! 0, x ! 1)) (concat pathways)"
    by (auto simp: pathways_plain_def Let_def split: if_splits)
  then show "sorted (map (\<lambda>x. (x ! 0, x ! 1)) prows)" by simp
next
  assume "organisms_sorted organisms = Inr orows"
  then have "orows = sort_key (\<lambda>x. x ! 0) organisms"
    by (auto simp: organisms_sorted_def split: if_splits)
  then show "sorted (map (\<lambda>x. x ! 0) orows)" by simp
next
  assume "main_sequences env cache_path genes_plain t = Some (Inr (srows, t'))"
  then show "list_all2 prefix genes_plain srows" by (rule main_sequences_rows)
qed

lemmas enzymes_eval = get_enzymes_main_def fetch_pathway_def ec_numbers_of_def REGEX_EC_NUMBERS_def
  ec_chars_def get_enzymes_fetch_cache_def get_pathway_from_cache_def pathway_file_def

theorem aggregate_order_witness:
  "map_option (map_sum id fst)
     (get_enzymes_main (constant_server 200 ''x [EC:2.1] y [EC:1.1]'')
        \<lparr>enzymes_input = [\<lparr>pathway_id = ''p1'', pathway_organism = ''hsa''\<rparr>], enzymes_output = ''o'',
         enzymes_output_exists = False, enzymes_force = False, enzymes_cache_dir = None\<rparr> empty_state)
     = Some (Inr (Some [[''hsa'', ''p1'', ''1.1''], [''hsa'', ''p1'', ''2.1'']]))
   \<and> sorted [[''hsa'', ''p1'', ''1.1''], [''hsa'', ''p1'', ''2.1'']]
   \<and> pathways_plain [[[''b'', ''p'', ''d'']], [[''a'', ''q'', ''e'']]]
       = Inr [[''a'', ''q'', ''e''], [''b'', ''p'', ''d'']]
   \<and> sorted (map (\<lambda>x. (x ! 0, x ! 1)) [[''a'', ''q'', ''e''], [''b'', ''p'', ''d'']])
   \<and> organisms_sorted [[''T2'', ''b''], [''T1'', ''a'']] = Inr [[''T1'', ''a''], [''T2'', ''b'']]
   \<and> sorted (map (\<lambda>x. x ! 0) [[''T1'', ''a''], [''T2'', ''b'']])
   \<and> map_option (map_sum id fst)
        (main_sequences example_env (Some (parse_path ''/cache''))
           [[''2'', ''b'', ''2''], [''2'', ''a'', ''1'']] empty_state)
     = Some (Inr [[''2'', ''b'', ''2'', ''x'', ''MK''], [''2'', ''a'', ''1'', ''x'', ''MK'']])
   \<and> list_all2 prefix [[''2'', ''b'', ''2''], [''2'', ''a'', ''1'']]
        [[''2'', ''b'', ''2'', ''x'', ''MK''], [''2'', ''a'', ''1'', ''x'', ''MK'']]"
proof -
  let ?E = "constant_server 200 ''x [EC:2.1] y [EC:1.1]''"
  let ?a = "\<lparr>enzymes_input = [\<lparr>pathway_id = ''p1'', pathway_organism = ''hsa''\<rparr>], enzymes_output = ''o'',
         enzymes_output_exists = False, enzymes_force = False, enzymes_cache_dir = None\<rparr>"
  let ?rows = "[[''hsa'', ''p1'', ''1.1''], [''hsa'', ''p1'', ''2.1'']]"
  let ?genes = "[[''2'', ''b'', ''2''], [''2'', ''a'', ''1'']]"
  let ?srows = "[[''2'', ''b'', ''2'', ''x'', ''MK''], [''2'', ''a'', ''1'', ''x'', ''MK'']]"
  have e: "map_option (map_sum id fst) (get_enzymes_main ?E ?a empty_state) = Some (Inr (Some ?rows))"
    by (simp add: enzymes_eval fetch_eval regex_eval rbind_def)
  then obtain st' where e': "get_enzymes_main ?E ?a empty_state = Some (Inr (Some ?rows, st'))"
    by (cases "get_enzymes_main ?E ?a empty_state") (auto simp: map_sum_def split: sum.splits)
  have p: "pathways_plain [[[''b'', ''p'', ''d'']], [[''a'', ''q'', ''e'']]]
       = Inr [[''a'', ''q'', ''e''], [''b'', ''p'', ''d'']]"
    by (simp add: pathways_plain_def)
  have o: "organisms_sorted [[''T2'', ''b''], [''T1'', ''a'']] = Inr [[''T1'', ''a''], [''T2'', ''b'']]"
    by (simp add: organisms_sorted_def)
  have s: "map_option (map_sum id fst)
        (main_sequences example_env (Some (parse_path ''/cache'')) ?genes empty_state)
     = Some (Inr ?srows)"
    by (simp add: main_eval fetch_eval regex_eval path_eval)
  then obtain t' where s': "main_sequences example_env (Some (parse_path ''/cache'')) ?genes empty_state
     = Some (Inr (?srows, t'))"
    by (cases "main_sequences example_env (Some (parse_path ''/cache'')) ?genes empty_state")
      (auto simp: map_sum_def split: sum.splits)
  from aggregate_order [of ?E ?a empty_state ?rows st' "[[[''b'', ''p'', ''d'']], [[''a'', ''q'', ''e'']]]"
      "[[''a'', ''q'', ''e''], [''b'', ''p'', ''d'']]" "[[''T2'', ''b''], [''T1'', ''a'']]"
      "[[''T1'', ''a''], [''T2'', ''b'']]"]
    e' p o
  have c1: "sorted ?rows \<and> sorted (map (\<lambda>x. (x ! 0, x ! 1)) [[''a'', ''q'', ''e''], [''b'', ''p'', ''d'']])
    \<and> sorted (map (\<lambda>x. x ! 0) [[''T1'', ''a''], [''T2'', ''b'']])"
    by blast
  from aggregate_order [of example_env _ _ _ _ _ _ _ _ "Some (parse_path ''/cache'')" ?genes
      empty_state ?srows t'] s'
  have c2: "list_all2 prefix ?genes ?srows"
    by blast
  from c1 c2 e p o s show ?thesis by blast
qed

section \<open>Backoff on rejection\<close>

lemma retry_loop_not_403:
  assumes "retry_loop env path d r st = Some y"
  shows "status_code (fst y) \<noteq> 403"
  using assms
  by (rule retry_loop.raw_induct
      [rotated, where P = "\<lambda>env path d r st y. status_code (fst y) \<noteq> 403"])
    (auto split: if_splits)

lemma fetch_with_retry_not_403:
  "fetch_with_retry env path st = Some (r, st') \<Longrightarrow> status_code r \<noteq> 403"
  using retry_loop_not_403 [of env path _ _ _ "(r, st')"]
  by (auto simp: fetch_with_retry_def split: prod.splits)

lemma map_upt_shift: "map f [0..<Suc n] = f 0 # map (\<lambda>i. f (Suc i)) [0..<n]"
  by (simp add: upt_conv_Cons map_Suc_upt [symmetric] del: upt_Suc)

lemma retry_loop_rejections:
  assumes "requests st = Suc j" and "r = server env j path"
    and "\<forall>i<n. status_code (server env (j + i) path) = 403"
    and "status_code (server env (j + n) path) \<noteq> 403"
  shows "retry_loop env path d r st
    = Some (server env (j + n) path,
        st\<lparr>requests := Suc (j + n), sleeps := sleeps st @ map (\<lambda>i. d * 2 ^ i) [0..<n]\<rparr>)"
  using assms
proof (induction n arbitrary: j d r st)
  case 0
  then show ?case
    by (subst retry_loop.simps) simp
next
  case (Suc n)
  let ?st' = "st\<lparr>sleeps := sleeps st @ [d], requests := Suc (Suc j)\<rparr>"
  from Suc.prems have rej: "status_code r = 403" by auto
  have "retry_loop env path (d * 2) (server env (Suc j) path) ?st'
      = Some (server env (Suc j + n) path,
          ?st'\<lparr>requests := Suc (Suc j + n),
                sleeps := sleeps ?st' @ map (\<lambda>i. d * 2 * 2 ^ i) [0..<n]\<rparr>)"
  proof (rule Suc.IH)
    show "requests ?st' = Suc (Suc j)" by simp
    show "server env (Suc j) path = server env (Suc j) path" ..
    show "\<forall>i<n. status_code (server env (Suc j + i) path) = 403"
      using Suc.prems(3) by (metis Suc_less_eq add_Suc_shift)
    show "status_code (server env (Suc j + n) path) \<noteq> 403"
      using Suc.prems(4) by simp
  qed
  moreover have "retry_loop env path d r st
      = retry_loop env path (d * 2) (server env (Suc j) path) ?st'"
    using rej Suc.prems(1) by (subst retry_loop.simps) (simp add: client_get_def)
  ultimately show ?case
    by (simp add: map_upt_shift mult.assoc del: upt_Suc)
qed

lemma fetch_with_retry_rejections:
  assumes "\<forall>i<n. status_code (server env (requests st + i) path) = 403"
    and "status_code (server env (requests st + n) path) \<noteq> 403"
  shows "fetch_with_retry env path st
    = Some (server env (requests st + n) path,
        st\<lparr>requests := Suc (requests st + n), draws := Suc (draws st),
           sleeps := sleeps st @ map (\<lambda>i. (4 + rnd env (draws st) * 2) * 2 ^ i) [0..<n]\<rparr>)"
proof -
  let ?st1 = "st\<lparr>requests := Suc (requests st), draws := Suc (draws st)\<rparr>"
  have "retry_loop env path (4 + rnd env (draws st) * 2) (server env (requests st) path) ?st1
    = Some (server env (requests st + n) path,
        ?st1\<lparr>requests := Suc (requests st + n),
              sleeps := sleeps ?st1 @ map (\<lambda>i. (4 + rnd env (draws st) * 2) * 2 ^ i) [0..<n]\<rparr>)"
    using assms by (intro retry_loop_rejections) simp_all
  then show ?thesis
    by (simp add: fetch_with_retry_def client_get_def)
qed

text \<open>
  Claim C5: \<open>fetch_with_retry\<close> never returns a response with status 403; when the server
  rejects two requests and answers the third with status 200, it returns that response
  after exactly two sleeps, the first of \<open>4 + 2u\<close> seconds for the value \<open>u\<close> drawn from
  \<open>[0, 1)\<close>, hence in \<open>[4, 6)\<close>, the second of twice that; after \<open>n\<close> rejections the sleeps
  are the first delay doubled each time.
\<close>

theorem backoff_on_rejection:
  "(\<forall>r st'. fetch_with_retry env path st = Some (r, st') \<longrightarrow> status_code r \<noteq> 403)
   \<and> (status_code (server env (requests st) path) = 403
      \<and> status_code (server env (requests st + 1) path) = 403
      \<and> status_code (server env (requests st + 2) path) = 200
      \<and> 0 \<le> rnd env (draws st) \<and> rnd env (draws st) < 1
      \<longrightarrow> fetch_with_retry env path st
          = Some (server env (requests st + 2) path,
              st\<lparr>requests := requests st + 3, draws := Suc (draws st),
                 sleeps := sleeps st @ [4 + rnd env (draws st) * 2, (4 + rnd env (draws st) * 2) * 2]\<rparr>)
        \<and> 4 \<le> 4 + rnd env (draws st) * 2 \<and> 4 + rnd env (draws st) * 2 < 6)
   \<and> ((\<forall>i<n. status_code (server env (requests st + i) path) = 403)
      \<and> status_code (server env (requests st + n) path) \<noteq> 403
      \<longrightarrow> fetch_with_retry env path st
          = Some (server env (requests st + n) path,
              st\<lparr>requests := Suc (requests st + n), draws := Suc (draws st),
                 sleeps := sleeps st @ map (\<lambda>i. (4 + rnd env (draws st) * 2) * 2 ^ i) [0..<n]\<rparr>))"
proof (intro conjI allI impI)
  fix r st'
  assume "fetch_with_retry env path st = Some (r, st')"
  then show "status_code r \<noteq> 403" by (rule fetch_with_retry_not_403)
next
  assume h: "status_code (server env (requests st) path) = 403
      \<and> status_code (server env (requests st + 1) path) = 403
      \<and> status_code (server env (requests st + 2) path) = 200
      \<and> 0 \<le> rnd env (draws st) \<and> rnd env (draws st) < 1"
  have "\<forall>i<2. status_code (server env (requests st + i) path) = 403"
    using h by (auto simp: less_Suc_eq numeral_2_eq_2)
  moreover have "status_code (server env (requests st + 2) path) \<noteq> 403"
    using h by simp
  ultimately have "fetch_with_retry env path st
    = Some (server env (requests st + 2) path,
        st\<lparr>requests := Suc (requests st + 2), draws := Suc (draws st),
           sleeps := sleeps st @ map (\<lambda>i. (4 + rnd env (draws st) * 2) * 2 ^ i) [0..<2]\<rparr>)"
    by (rule fetch_with_retry_rejections)
  moreover have "map (\<lambda>i. (4 + rnd env (draws st) * 2) * 2 ^ i) [0..<2]
      = [4 + rnd env (draws st) * 2, (4 + rnd env (draws st) * 2) * 2]"
    by (simp add: numeral_2_eq_2)
  moreover have "Suc (requests st + 2) = requests st + 3" by simp
  ultimately show "fetch_with_retry env path st
          = Some (server env (requests st + 2) path,
              st\<lparr>requests := requests st + 3, draws := Suc (draws st),
                 sleeps := sleeps st @ [4 + rnd env (draws st) * 2, (4 + rnd env (draws st) * 2) * 2]\<rparr>)"
    by simp
  show "4 \<le> 4 + rnd env (draws st) * 2" using h by simp
  show "4 + rnd env (draws st) * 2 < 6" using h by simp
next
  assume "(\<forall>i<n. status_code (server env (requests st + i) path) = 403)
      \<and> status_code (server env (requests st + n) path) \<noteq> 403"
  then show "fetch_with_retry env path st
          = Some (server env (requests st + n) path,
              st\<lparr>requests := Suc (requests st + n), draws := Suc (draws st),
                 sleeps := sleeps st @ map (\<lambda>i. (4 + rnd env (draws st) * 2) * 2 ^ i) [0..<n]\<rparr>)"
    by (intro fetch_with_retry_rejections) simp_all
qed

theorem backoff_on_rejection_witness:
  "status_code (server example_throttled 0 ''/list/organism'') = 403
   \<and> status_code (server example_throttled 1 ''/list/organism'') = 403
   \<and> status_code (server example_throttled 2 ''/list/organism'') = 200
   \<and> 0 \<le> rnd example_throttled 0 \<and> rnd example_throttled 0 < 1
   \<and> fetch_with_retry example_throttled ''/list/organism'' empty_state
       = Some (\<lparr>status_code = 200, resp_text = ''ok''\<rparr>,
           empty_state\<lparr>requests := 3, draws := 1, sleeps := [5, 10]\<rparr>)
   \<and> (4::real) \<le> 5 \<and> (5::real) < 6 \<and> (10::real) = 2 * 5"
proof -
  have h: "status_code (server example_throttled (requests empty_state) ''/list/organism'') = 403
      \<and> status_code (server example_throttled (requests empty_state + 1) ''/list/organism'') = 403
      \<and> status_code (server example_throttled (requests empty_state + 2) ''/list/organism'') = 200
      \<and> 0 \<le> rnd example_throttled (draws empty_state) \<and> rnd example_throttled (draws empty_state) < 1"
    by (simp add: example_throttled_def empty_state_def)
  from backoff_on_rejection [of example_throttled "''/list/organism''" empty_state, THEN conjunct2, THEN conjunct1] h
  have "fetch_with_retry example_throttled ''/list/organism'' empty_state
          = Some (server example_throttled (requests empty_state + 2) ''/list/organism'',
              empty_state\<lparr>requests := requests empty_state + 3, draws := Suc (draws empty_state),
                 sleeps := sleeps empty_state @ [4 + rnd example_throttled (draws empty_state) * 2,
                    (4 + rnd example_throttled (draws empty_state) * 2) * 2]\<rparr>)"
    by blast
  then have "fetch_with_retry example_throttled ''/list/organism'' empty_state
       = Some (\<lparr>status_code = 200, resp_text = ''ok''\<rparr>,
           empty_state\<lparr>requests := 3, draws := 1, sleeps := [5, 10]\<rparr>)"
    by (simp add: example_throttled_def empty_state_def)
  moreover have "status_code (server example_throttled 0 ''/list/organism'') = 403
   \<and> status_code (server example_throttled 1 ''/list/organism'') = 403
   \<and> status_code (server example_throttled 2 ''/list/organism'') = 200
   \<and> 0 \<le> rnd example_throttled 0 \<and> rnd example_throttled 0 < 1"
    by (simp add: example_throttled_def)
  moreover have "(4::real) \<le> 5 \<and> (5::real) < 6 \<and> (10::real) = 2 * 5"
    by simp
  ultimately show ?thesis by blast
qed

section \<open>EC numbers of a pathway entry\<close>

lemma lookahead_filter:
  "concat (map (m (LookAhead (Lit w))) xs) = filter (\<lambda>s. prefix w (fst (snd s))) xs"
  by (induction xs) (auto split: prod.splits)

lemma set_group_filter:
  "filter (\<lambda>s. prefix w (fst (snd s))) (map (set_group k s0) xs)
    = map (set_group k s0) (filter (\<lambda>s. prefix w (fst (snd s))) xs)"
  by (induction xs) (auto simp: set_group_def split: prod.splits)

lemma rep_class_followed:
  assumes "y \<notin> set cs"
  shows "filter (\<lambda>s. prefix [y] (fst (snd s))) (rep (m (Cls (Chars cs))) (b, r, g))
    = (if takeWhile (\<lambda>c. c \<in> set cs) r \<noteq> [] \<and> prefix [y] (dropWhile (\<lambda>c. c \<in> set cs) r)
       then [(rev (takeWhile (\<lambda>c. c \<in> set cs) r) @ b, dropWhile (\<lambda>c. c \<in> set cs) r, g)]
       else [])"
proof (induction r arbitrary: b)
  case Nil
  show ?case by (subst rep.simps) simp
next
  case (Cons c r)
  show ?case
  proof (cases "c \<in> set cs")
    case False
    then show ?thesis by (subst rep.simps) simp
  next
    case True
    have unfold: "rep (m (Cls (Chars cs))) (b, c # r, g)
        = rep (m (Cls (Chars cs))) (c # b, r, g) @ [(c # b, r, g)]"
      using True by (subst rep.simps) simp
    show ?thesis
    proof (cases "takeWhile (\<lambda>c. c \<in> set cs) r = []")
      case True
      then have "dropWhile (\<lambda>c. c \<in> set cs) r = r"
        by (metis append_Nil takeWhile_dropWhile_id)
      with True \<open>c \<in> set cs\<close> show ?thesis
        unfolding unfold by (simp add: Cons.IH)
    next
      case False
      then obtain x r' where r: "r = x # r'" and x: "x \<in> set cs"
        by (cases r) (auto split: if_splits)
      with assms have "\<not> prefix [y] r" by auto
      with False \<open>c \<in> set cs\<close> show ?thesis
        unfolding unfold by (simp add: Cons.IH)
    qed
  qed
qed

lemma ec_match:
  "m REGEX_EC_NUMBERS (b, r, [])
    = (if prefix '':CE['' b \<and> takeWhile (\<lambda>c. c \<in> set ec_chars) r \<noteq> []
          \<and> prefix '']'' (dropWhile (\<lambda>c. c \<in> set ec_chars) r)
       then [(rev (takeWhile (\<lambda>c. c \<in> set ec_chars) r) @ b, dropWhile (\<lambda>c. c \<in> set ec_chars) r,
              [(1, takeWhile (\<lambda>c. c \<in> set ec_chars) r)])]
       else [])"
proof -
  let ?P = "\<lambda>c. c \<in> set ec_chars"
  have y: "CHR '']'' \<notin> set ec_chars" by (simp add: ec_chars_def)
  have len: "length r - length (dropWhile ?P r) = length (takeWhile ?P r)"
    by (metis add_diff_cancel_right' length_append takeWhile_dropWhile_id)
  have grp: "take (length (takeWhile ?P r)) r = takeWhile ?P r"
    by (rule takeWhile_eq_take [symmetric])
  have 1: "m REGEX_EC_NUMBERS (b, r, [])
      = concat (map (m (Seq (Group 1 (Plus (Cls (Chars ec_chars)))) (LookAhead (Lit '']''))))
          (if prefix (rev ''[EC:'') b then [(b, r, [])] else []))"
    by (simp only: REGEX_EC_NUMBERS_def m.simps(3) m.simps(7) fst_conv)
  have 2: "m (Seq (Group 1 (Plus (Cls (Chars ec_chars)))) (LookAhead (Lit '']''))) (b, r, [])
      = map (set_group 1 (b, r, []))
          (filter (\<lambda>s. prefix '']'' (fst (snd s))) (rep (m (Cls (Chars ec_chars))) (b, r, [])))"
    by (simp only: m.simps(3) m.simps(6) m.simps(5) lookahead_filter set_group_filter)
  have 3: "m (Seq (Group 1 (Plus (Cls (Chars ec_chars)))) (LookAhead (Lit '']''))) (b, r, [])
      = (if takeWhile ?P r \<noteq> [] \<and> prefix '']'' (dropWhile ?P r)
         then [(rev (takeWhile ?P r) @ b, dropWhile ?P r, [(1, takeWhile ?P r)])] else [])"
    unfolding 2 rep_class_followed [OF y] by (simp add: set_group_def len grp)
  have 4: "concat (map f (if A then [s] else [])) = (if A then f s else [])" for f :: "mstate \<Rightarrow> mstate list" and A s
    by simp
  show ?thesis
    unfolding 1 4 3 by simp
qed

lemma ec_run_unique:
  assumes "set c \<subseteq> set ec_chars"
  shows "takeWhile (\<lambda>x. x \<in> set ec_chars) (c @ CHR '']'' # post) = c"
    and "dropWhile (\<lambda>x. x \<in> set ec_chars) (c @ CHR '']'' # post) = CHR '']'' # post"
proof -
  have y: "CHR '']'' \<notin> set ec_chars" by (simp add: ec_chars_def)
  from assms have all: "\<And>x. x \<in> set c \<Longrightarrow> x \<in> set ec_chars" by auto
  show "takeWhile (\<lambda>x. x \<in> set ec_chars) (c @ CHR '']'' # post) = c"
    using y by (simp add: takeWhile_append2 [OF all])
  show "dropWhile (\<lambda>x. x \<in> set ec_chars) (c @ CHR '']'' # post) = CHR '']'' # post"
    using y by (simp add: dropWhile_append2 [OF all])
qed

lemma ec_occurs_here:
  assumes "c \<noteq> []" "set c \<subseteq> set ec_chars" "r = c @ '']'' @ post" "prefix '':CE['' b"
  shows "m REGEX_EC_NUMBERS (b, r, []) = [(rev c @ b, '']'' @ post, [(1, c)])]"
  using assms by (simp add: ec_match ec_run_unique)

lemma ec_occurs_skip:
  assumes "m REGEX_EC_NUMBERS (b, x # xs, []) = []"
  shows "ec_occurs b (x # xs) c \<longleftrightarrow> ec_occurs (x # b) xs c"
proof
  assume "ec_occurs b (x # xs) c"
  then obtain pre post where c: "c \<noteq> []" "set c \<subseteq> set ec_chars"
    and r: "x # xs = pre @ c @ '']'' @ post" and b: "prefix '':CE['' (rev pre @ b)"
    by (auto simp: ec_occurs_def)
  have "pre \<noteq> []"
  proof
    assume "pre = []"
    with c r b have "m REGEX_EC_NUMBERS (b, x # xs, []) = [(rev c @ b, '']'' @ post, [(1, c)])]"
      by (intro ec_occurs_here) simp_all
    with assms show False by simp
  qed
  then obtain pre' where pre: "pre = x # pre'"
    using r by (cases pre) auto
  with r have "xs = pre' @ c @ '']'' @ post" by simp
  moreover from b pre have "prefix '':CE['' (rev pre' @ x # b)" by simp
  ultimately show "ec_occurs (x # b) xs c"
    using c unfolding ec_occurs_def by blast
next
  assume "ec_occurs (x # b) xs c"
  then obtain pre post where c: "c \<noteq> []" "set c \<subseteq> set ec_chars"
    and r: "xs = pre @ c @ '']'' @ post" and b: "prefix '':CE['' (rev pre @ x # b)"
    by (auto simp: ec_occurs_def)
  from r have "x # xs = (x # pre) @ c @ '']'' @ post" by simp
  moreover from b have "prefix '':CE['' (rev (x # pre) @ b)" by simp
  ultimately show "ec_occurs b (x # xs) c"
    using c unfolding ec_occurs_def by blast
qed

lemma append_eq_longer:
  assumes "pre @ y = run @ rest" and "length run \<le> length pre"
  shows "pre = run @ drop (length run) pre" and "rest = drop (length run) pre @ y"
proof -
  have "take (length run) (pre @ y) = take (length run) (run @ rest)"
    by (simp only: assms(1))
  with assms(2) have t: "take (length run) pre = run" by simp
  have "pre = take (length run) pre @ drop (length run) pre" by simp
  with t show "pre = run @ drop (length run) pre" by simp
  have "drop (length run) (pre @ y) = drop (length run) (run @ rest)"
    by (simp only: assms(1))
  with assms(2) show "rest = drop (length run) pre @ y" by simp
qed

lemma append_eq_shorter:
  assumes "pre @ y = run @ rest" and "length pre < length run"
  shows "set pre \<subseteq> set run"
proof -
  have "take (length pre) (pre @ y) = take (length pre) (run @ rest)"
    by (simp only: assms(1))
  with assms(2) have "pre = take (length pre) run" by simp
  moreover have "set (take (length pre) run) \<subseteq> set run" by (rule set_take_subset)
  ultimately show ?thesis by simp
qed

lemma ec_occurs_match:
  assumes "m REGEX_EC_NUMBERS (b, r, []) = [(b', r', g)]"
  shows "ec_occurs b r c \<longleftrightarrow> c = group_str g 1 \<or> ec_occurs b' r' c"
proof -
  let ?P = "\<lambda>x. x \<in> set ec_chars"
  let ?run = "takeWhile ?P r"
  let ?rest = "dropWhile ?P r"
  have eq: "m REGEX_EC_NUMBERS (b, r, [])
      = (if prefix '':CE['' b \<and> ?run \<noteq> [] \<and> prefix '']'' ?rest
         then [(rev ?run @ b, ?rest, [(1, ?run)])] else [])"
    by (rule ec_match)
  have ok: "prefix '':CE['' b \<and> ?run \<noteq> [] \<and> prefix '']'' ?rest"
  proof (rule ccontr)
    assume "\<not> (prefix '':CE['' b \<and> ?run \<noteq> [] \<and> prefix '']'' ?rest)"
    then have "m REGEX_EC_NUMBERS (b, r, []) = []" unfolding eq by (rule if_not_P)
    with assms show False by simp
  qed
  then have "m REGEX_EC_NUMBERS (b, r, []) = [(rev ?run @ b, ?rest, [(1, ?run)])]"
    unfolding eq by (rule if_P)
  with assms have b': "b' = rev ?run @ b" and r': "r' = ?rest" and g: "g = [(1, ?run)]"
    by simp_all
  from ok have cond: "prefix '':CE['' b" "?run \<noteq> []" "prefix '']'' ?rest" by blast+
  have grp: "group_str g 1 = ?run" by (simp add: g group_str_def)
  have split: "r = ?run @ ?rest" by simp
  from cond(3) obtain post0 where rest: "?rest = CHR '']'' # post0"
    by (auto simp: prefix_def)
  have run_chars: "set ?run \<subseteq> set ec_chars"
    by (auto dest: set_takeWhileD)
  have colon: "CHR '':'' \<notin> set ec_chars" by (simp add: ec_chars_def)
  show ?thesis
  proof
    assume "ec_occurs b r c"
    then obtain pre post where c: "c \<noteq> []" "set c \<subseteq> set ec_chars"
      and r: "r = pre @ c @ '']'' @ post" and b: "prefix '':CE['' (rev pre @ b)"
      unfolding ec_occurs_def by blast
    from r split have both: "pre @ (c @ '']'' @ post) = ?run @ ?rest" by simp
    show "c = group_str g 1 \<or> ec_occurs b' r' c"
    proof (cases "pre = []")
      case True
      with r have "r = c @ CHR '']'' # post" by simp
      then have "?run = c" using c(2) by (simp only: ec_run_unique)
      with grp show ?thesis by simp
    next
      case False
      have "\<not> length pre < length ?run"
      proof
        assume less: "length pre < length ?run"
        from both less have "set pre \<subseteq> set ?run" by (rule append_eq_shorter)
        with run_chars have pre_chars: "set pre \<subseteq> set ec_chars" by blast
        from False have "last pre \<in> set pre" by simp
        with pre_chars have "last pre \<in> set ec_chars" by blast
        moreover from False have "rev pre = last pre # rev (butlast pre)"
          by (metis append_butlast_last_id rev.simps(2) rev_append rev_singleton_conv append_Cons append_Nil rev_rev_ident)
        with b have "last pre = CHR '':''" by simp
        ultimately show False using colon by simp
      qed
      then have le: "length ?run \<le> length pre" by simp
      define pre' where "pre' = drop (length ?run) pre"
      from append_eq_longer [OF both le]
      have pre: "pre = ?run @ pre'" and rest': "?rest = pre' @ c @ '']'' @ post"
        unfolding pre'_def by blast+
      have "rev pre @ b = rev pre' @ b'"
        by (subst pre) (simp add: b')
      with b have "prefix '':CE['' (rev pre' @ b')" by simp
      with rest' c have "ec_occurs b' r' c"
        unfolding ec_occurs_def r' by blast
      then show ?thesis ..
    qed
  next
    assume "c = group_str g 1 \<or> ec_occurs b' r' c"
    then show "ec_occurs b r c"
    proof
      assume "c = group_str g 1"
      with grp have cr: "c = ?run" by simp
      have "r = [] @ c @ '']'' @ post0 \<and> prefix '':CE['' (rev [] @ b)"
        using split rest cond(1) cr by simp
      then have "\<exists>pre post. r = pre @ c @ '']'' @ post \<and> prefix '':CE['' (rev pre @ b)"
        by blast
      moreover from cond(2) cr have "c \<noteq> []" by simp
      moreover from run_chars cr have "set c \<subseteq> set ec_chars" by simp
      ultimately show ?thesis
        unfolding ec_occurs_def by (intro conjI)
    next
      assume "ec_occurs b' r' c"
      then obtain pre post where c: "c \<noteq> []" "set c \<subseteq> set ec_chars"
        and r: "r' = pre @ c @ '']'' @ post" and b: "prefix '':CE['' (rev pre @ b')"
        unfolding ec_occurs_def by blast
      from r split have "r = (?run @ pre) @ c @ '']'' @ post" by (simp add: r')
      moreover from b have "prefix '':CE['' (rev (?run @ pre) @ b)" by (simp add: b')
      ultimately have "\<exists>pre post. r = pre @ c @ '']'' @ post \<and> prefix '':CE['' (rev pre @ b)"
        by blast
      with c show ?thesis
        unfolding ec_occurs_def by blast
    qed
  qed
qed

lemma ec_match_cases:
  "m REGEX_EC_NUMBERS (b, r, []) = []
   \<or> (takeWhile (\<lambda>x. x \<in> set ec_chars) r \<noteq> []
      \<and> m REGEX_EC_NUMBERS (b, r, [])
          = [(rev (takeWhile (\<lambda>x. x \<in> set ec_chars) r) @ b, dropWhile (\<lambda>x. x \<in> set ec_chars) r,
              [(1, takeWhile (\<lambda>x. x \<in> set ec_chars) r)])])"
  unfolding ec_match by (rule if_split [THEN iffD2]) blast

lemma dropWhile_shorter:
  assumes "takeWhile P r \<noteq> []"
  shows "length (dropWhile P r) < length r"
proof -
  have "length (takeWhile P r @ dropWhile P r) = length r"
    by (simp only: takeWhile_dropWhile_id)
  then have "length (takeWhile P r) + length (dropWhile P r) = length r"
    by (simp only: length_append)
  moreover from assms have "0 < length (takeWhile P r)" by simp
  ultimately show ?thesis by linarith
qed

lemma findall_ec:
  "set (findall_from REGEX_EC_NUMBERS b r) = {c. ec_occurs b r c}"
proof (induction "length r" arbitrary: b r rule: less_induct)
  case less
  show ?case
  proof (cases r)
    case Nil
    have "m REGEX_EC_NUMBERS (b, [], []) = []"
      using ec_match_cases [of b "[]"] by simp
    then have "findall_from REGEX_EC_NUMBERS b [] = []" by simp
    moreover have "\<not> ec_occurs b [] c" for c by (simp add: ec_occurs_def)
    ultimately show ?thesis unfolding Nil by simp
  next
    case (Cons x xs)
    from ec_match_cases [of b "x # xs"] show ?thesis
    proof
      assume none: "m REGEX_EC_NUMBERS (b, x # xs, []) = []"
      then have "findall_from REGEX_EC_NUMBERS b (x # xs) = findall_from REGEX_EC_NUMBERS (x # b) xs"
        by simp
      moreover have "set (findall_from REGEX_EC_NUMBERS (x # b) xs) = {c. ec_occurs (x # b) xs c}"
        by (rule less) (simp add: Cons)
      moreover have "{c. ec_occurs b (x # xs) c} = {c. ec_occurs (x # b) xs c}"
        using ec_occurs_skip [OF none] by blast
      ultimately show ?thesis
        unfolding Cons by (simp only:)
    next
      let ?run = "takeWhile (\<lambda>x. x \<in> set ec_chars) (x # xs)"
      let ?rest = "dropWhile (\<lambda>x. x \<in> set ec_chars) (x # xs)"
      assume "?run \<noteq> [] \<and> m REGEX_EC_NUMBERS (b, x # xs, []) = [(rev ?run @ b, ?rest, [(1, ?run)])]"
      then have run: "?run \<noteq> []"
        and mt: "m REGEX_EC_NUMBERS (b, x # xs, []) = [(rev ?run @ b, ?rest, [(1, ?run)])]"
        by blast+
      from run have shorter: "length ?rest < length (x # xs)" by (rule dropWhile_shorter)
      have "findall_from REGEX_EC_NUMBERS b (x # xs)
          = (case [(rev ?run @ b, ?rest, [(1, ?run)])] of
               [] \<Rightarrow> findall_from REGEX_EC_NUMBERS (x # b) xs
             | (b', r', g) # _ \<Rightarrow> group_str g 1 #
                 (if length r' < length (x # xs) then findall_from REGEX_EC_NUMBERS b' r'
                  else findall_from REGEX_EC_NUMBERS (x # b) xs))"
        by (simp only: findall_from.simps mt)
      also have "\<dots> = group_str [(1, ?run)] 1 #
          (if length ?rest < length (x # xs) then findall_from REGEX_EC_NUMBERS (rev ?run @ b) ?rest
           else findall_from REGEX_EC_NUMBERS (x # b) xs)"
        by (simp only: list.case prod.case)
      also have "\<dots> = group_str [(1, ?run)] 1 # findall_from REGEX_EC_NUMBERS (rev ?run @ b) ?rest"
        using shorter by (simp only: if_True)
      finally have "findall_from REGEX_EC_NUMBERS b (x # xs)
          = group_str [(1, ?run)] 1 # findall_from REGEX_EC_NUMBERS (rev ?run @ b) ?rest" .
      moreover have "set (findall_from REGEX_EC_NUMBERS (rev ?run @ b) ?rest)
          = {c. ec_occurs (rev ?run @ b) ?rest c}"
        by (rule less) (use shorter Cons in \<open>simp only:\<close>)
      moreover have "{c. ec_occurs b (x # xs) c}
          = insert (group_str [(1, ?run)] 1) {c. ec_occurs (rev ?run @ b) ?rest c}"
        using ec_occurs_match [OF mt] by blast
      ultimately show ?thesis
        unfolding Cons by (simp only: list.set)
    qed
  qed
qed

lemma ec_occurs_text: "ec_occurs [] text c \<longleftrightarrow> c \<in> ec_annotations text"
proof
  assume "ec_occurs [] text c"
  then obtain pre post where c: "c \<noteq> []" "set c \<subseteq> set ec_chars"
    and r: "text = pre @ c @ '']'' @ post" and b: "prefix '':CE['' (rev pre)"
    by (auto simp: ec_occurs_def)
  from b obtain z where "rev pre = '':CE['' @ z" by (auto simp: prefix_def)
  then have "rev (rev pre) = rev ('':CE['' @ z)" by (simp only:)
  then have "pre = rev z @ ''[EC:''" by simp
  with r have "text = rev z @ ''[EC:'' @ c @ '']'' @ post" by simp
  then have "\<exists>pre post. text = pre @ ''[EC:'' @ c @ '']'' @ post" by blast
  with c show "c \<in> ec_annotations text"
    unfolding ec_annotations_def by blast
next
  assume "c \<in> ec_annotations text"
  then obtain pre post where c: "c \<noteq> []" "set c \<subseteq> set ec_chars"
    and r: "text = pre @ ''[EC:'' @ c @ '']'' @ post"
    by (auto simp: ec_annotations_def)
  from r have "text = (pre @ ''[EC:'') @ c @ '']'' @ post" by simp
  moreover have "prefix '':CE['' (rev (pre @ ''[EC:'') @ [])" by simp
  ultimately have "\<exists>pre post. text = pre @ c @ '']'' @ post \<and> prefix '':CE['' (rev pre @ [])"
    by blast
  with c show "ec_occurs [] text c"
    unfolding ec_occurs_def by blast
qed

lemma findall_ec_annotations: "set (re_findall REGEX_EC_NUMBERS text) = ec_annotations text"
proof -
  have "set (re_findall REGEX_EC_NUMBERS text) = {c. ec_occurs [] text c}"
    unfolding re_findall_def by (rule findall_ec)
  also have "\<dots> = ec_annotations text"
    using ec_occurs_text by blast
  finally show ?thesis .
qed

text \<open>
  Claim C3: for every text the EC numbers extracted are exactly the codes annotated in it
  (the non-empty strings of digits, spaces, dots and dashes between \<open>[EC:\<close> and \<open>]\<close>),
  without duplicates and in lexicographic order; texts with the same set of annotated codes,
  in whatever order and however often repeated, give the same list.
\<close>

theorem ec_numbers_extraction:
  "set (ec_numbers_of text) = ec_annotations text
   \<and> distinct (ec_numbers_of text)
   \<and> sorted (ec_numbers_of text)
   \<and> (ec_annotations text = ec_annotations text' \<longrightarrow> ec_numbers_of text = ec_numbers_of text')"
proof -
  have s: "set (ec_numbers_of t) = ec_annotations t" for t
    by (simp add: ec_numbers_of_def findall_ec_annotations)
  have d: "distinct (ec_numbers_of t)" for t
    by (simp add: ec_numbers_of_def)
  have o: "sorted (ec_numbers_of t)" for t
    by (simp add: ec_numbers_of_def)
  have "ec_numbers_of text = ec_numbers_of text'"
    if "ec_annotations text = ec_annotations text'"
  proof -
    from that have "set (ec_numbers_of text) = set (ec_numbers_of text')"
      by (simp add: s)
    then show ?thesis
      using o d by (intro sorted_distinct_set_unique)
  qed
  with s d o show ?thesis by blast
qed

theorem ec_numbers_extraction_witness:
  "ec_annotations ''a [EC:2.1] b [EC:1.1]'' = ec_annotations ''[EC:1.1] [EC:2.1] [EC:1.1]''
   \<and> ec_numbers_of ''a [EC:2.1] b [EC:1.1]'' = [''1.1'', ''2.1'']
   \<and> ec_numbers_of ''[EC:1.1] [EC:2.1] [EC:1.1]'' = [''1.1'', ''2.1'']
   \<and> ec_numbers_of ''no annotation'' = []
   \<and> ec_annotations ''no annotation'' = {}"
proof -
  let ?t1 = "''a [EC:2.1] b [EC:1.1]''"
  let ?t2 = "''[EC:1.1] [EC:2.1] [EC:1.1]''"
  have e1: "ec_numbers_of ?t1 = [''1.1'', ''2.1'']"
    by (simp add: ec_numbers_of_def REGEX_EC_NUMBERS_def ec_chars_def regex_eval)
  have e2: "ec_numbers_of ?t2 = [''1.1'', ''2.1'']"
    by (simp add: ec_numbers_of_def REGEX_EC_NUMBERS_def ec_chars_def regex_eval)
  have e0: "ec_numbers_of ''no annotation'' = []"
    by (simp add: ec_numbers_of_def REGEX_EC_NUMBERS_def ec_chars_def regex_eval)
  have a1: "ec_annotations ?t1 = set (ec_numbers_of ?t1)"
    by (rule ec_numbers_extraction [of ?t1 ?t1, THEN conjunct1, symmetric])
  have a2: "ec_annotations ?t2 = set (ec_numbers_of ?t2)"
    by (rule ec_numbers_extraction [of ?t2 ?t2, THEN conjunct1, symmetric])
  have a0: "ec_annotations ''no annotation'' = set (ec_numbers_of ''no annotation'')"
    by (rule ec_numbers_extraction [of "''no annotation''" "''no annotation''", THEN conjunct1, symmetric])
  have same: "ec_annotations ?t1 = ec_annotations ?t2"
    unfolding a1 a2 e1 e2 ..
  have "ec_numbers_of ?t1 = ec_numbers_of ?t2"
    by (rule ec_numbers_extraction [of ?t1 ?t2, THEN conjunct2, THEN conjunct2, THEN conjunct2,
        THEN mp, OF same])
  then have e2': "ec_numbers_of ?t2 = [''1.1'', ''2.1'']"
    by (simp only: e1)
  have none: "ec_annotations ''no annotation'' = {}"
    unfolding a0 e0 by (simp only: list.set)
  from same e1 e2' e0 none show ?thesis by (intro conjI)
qed

end
